theory Spec2Isabelle
  imports Complex_Main "HOL-Library.Multiset" "HOL-Library.Product_Lexorder"
begin

section \<open>Python values\<close>

text \<open>
  The server passes around plain Python dictionaries whose values are whatever a JSON
  document can hold. A number (bool, int or finite float) is modelled by its numeric
  value: Python compares, hashes and tests the truth of \<^verbatim>\<open>True\<close>, \<^verbatim>\<open>1\<close> and
  \<^verbatim>\<open>1.0\<close> alike. NaN and the infinities are outside the model. A string is a list of
  code points below 256, one \<^typ>\<open>char\<close> each. A nested dictionary lists its items in
  insertion order.
\<close>

datatype pyval =
    PNone
  | PNum rat
  | PStr string
  | PList "pyval list"
  | PDict "(string \<times> pyval) list"

text \<open>A dictionary with string keys, read with \<^verbatim>\<open>.get\<close> and written by key.\<close>

type_synonym pydict = "string \<rightharpoonup> pyval"

datatype py_error =
    TypeError
  | AttributeError
  | OverflowError
  | Raised string

text \<open>\<^verbatim>\<open>d.get(key, default)\<close> and \<^verbatim>\<open>d.get(key)\<close>.\<close>

definition dict_get :: "pydict \<Rightarrow> string \<Rightarrow> pyval \<Rightarrow> pyval" where
  "dict_get d k dflt = (case d k of None \<Rightarrow> dflt | Some v \<Rightarrow> v)"

definition dict_get_none :: "pydict \<Rightarrow> string \<Rightarrow> pyval" where
  "dict_get_none d k = dict_get d k PNone"

text \<open>Truth value of an object, as \<^verbatim>\<open>if x:\<close> and \<^verbatim>\<open>not x\<close> test it.\<close>

fun truthy :: "pyval \<Rightarrow> bool" where
  "truthy PNone = False"
| "truthy (PNum r) = (r \<noteq> 0)"
| "truthy (PStr s) = (s \<noteq> [])"
| "truthy (PList xs) = (xs \<noteq> [])"
| "truthy (PDict kvs) = (kvs \<noteq> [])"

text \<open>
  \<^verbatim>\<open>x > n\<close> for an int literal \<^verbatim>\<open>n\<close>: defined on numbers, a \<^verbatim>\<open>TypeError\<close> on
  \<^verbatim>\<open>None\<close>, strings, lists and dictionaries.
\<close>

fun py_gt :: "pyval \<Rightarrow> rat \<Rightarrow> py_error + bool" where
  "py_gt (PNum r) n = Inr (r > n)"
| "py_gt PNone n = Inl TypeError"
| "py_gt (PStr s) n = Inl TypeError"
| "py_gt (PList xs) n = Inl TypeError"
| "py_gt (PDict kvs) n = Inl TypeError"

text \<open>
  The elements \<^verbatim>\<open>list.extend(x)\<close> appends: those of a list, the one-character strings
  of a string, the keys of a dictionary; \<^verbatim>\<open>None\<close> and numbers are not iterable.
\<close>

fun py_iter :: "pyval \<Rightarrow> py_error + pyval list" where
  "py_iter (PList xs) = Inr xs"
| "py_iter (PStr s) = Inr (map (\<lambda>c. PStr [c]) s)"
| "py_iter (PDict kvs) = Inr (map (\<lambda>kv. PStr (fst kv)) kvs)"
| "py_iter PNone = Inl TypeError"
| "py_iter (PNum r) = Inl TypeError"

text \<open>What may be a dictionary key: lists and dictionaries are unhashable.\<close>

fun hashable :: "pyval \<Rightarrow> bool" where
  "hashable PNone = True"
| "hashable (PNum r) = True"
| "hashable (PStr s) = True"
| "hashable (PList xs) = False"
| "hashable (PDict kvs) = False"

section \<open>collections.Counter\<close>

text \<open>
  A \<^verbatim>\<open>Counter\<close> is a dictionary, so it keeps its keys in the order of their first
  insertion. \<^verbatim>\<open>Counter(iterable)\<close> runs \<^verbatim>\<open>mapping[elem] = mapping.get(elem, 0) + 1\<close>
  over the elements, and \<^verbatim>\<open>most_common(n)\<close> is documented as
  \<^verbatim>\<open>sorted(items, key=itemgetter(1), reverse=True)[:n]\<close>: a stable sort by descending
  count.
\<close>

fun counter_add :: "(pyval \<times> nat) list \<Rightarrow> pyval \<Rightarrow> (pyval \<times> nat) list" where
  "counter_add [] x = [(x, 1)]"
| "counter_add ((k, n) # m) x =
     (if k = x then (k, n + 1) # m else (k, n) # counter_add m x)"

fun counter_update :: "(pyval \<times> nat) list \<Rightarrow> pyval list \<Rightarrow> py_error + (pyval \<times> nat) list" where
  "counter_update m [] = Inr m"
| "counter_update m (x # xs) =
     (if hashable x then counter_update (counter_add m x) xs else Inl TypeError)"

definition Counter :: "pyval list \<Rightarrow> py_error + (pyval \<times> nat) list" where
  "Counter xs = counter_update [] xs"

definition most_common :: "nat \<Rightarrow> (pyval \<times> nat) list \<Rightarrow> (pyval \<times> nat) list" where
  "most_common n items = take n (sort_key (\<lambda>kc. - int (snd kc)) items)"

section \<open>The batch summary\<close>

text \<open>
  \<^verbatim>\<open>avg_confidence\<close> is either the literal \<^verbatim>\<open>0.0\<close> the summary starts with, or the
  float that \<^verbatim>\<open>round(sum(confidences) / len(confidences), 1)\<close> evaluates to. That
  expression is IEEE double arithmetic and may raise \<^verbatim>\<open>OverflowError\<close>; it is a
  parameter \<open>round_mean\<close> of the model, and is spelled out further down for
  confidences that are ints.
\<close>

datatype 'f avg = Float_Zero | Rounded 'f

record 'f batch_summary =
  positive_count :: nat
  negative_count :: nat
  neutral_count :: nat
  high_confidence_count :: nat
  low_confidence_count :: nat
  error_count :: nat
  avg_confidence :: "'f avg"
  top_affected_coins :: "(pyval \<times> nat) list"

text \<open>The counters and the two work lists of the loop over the results.\<close>

record acc =
  n_pos :: nat
  n_neg :: nat
  n_neu :: nat
  n_high :: nat
  n_low :: nat
  n_err :: nat
  confidences :: "pyval list"
  all_coins :: "pyval list"

definition acc0 :: acc where
  "acc0 = \<lparr>n_pos = 0, n_neg = 0, n_neu = 0, n_high = 0, n_low = 0, n_err = 0,
           confidences = [], all_coins = []\<rparr>"

definition count_impact :: "pyval \<Rightarrow> acc \<Rightarrow> acc" where
  "count_impact impact a =
     (if impact = PStr ''Positive'' then a\<lparr>n_pos := n_pos a + 1\<rparr>
      else if impact = PStr ''Negative'' then a\<lparr>n_neg := n_neg a + 1\<rparr>
      else a\<lparr>n_neu := n_neu a + 1\<rparr>)"

definition count_confidence :: "bool \<Rightarrow> acc \<Rightarrow> acc" where
  "count_confidence hi a =
     (if hi then a\<lparr>n_high := n_high a + 1\<rparr> else a\<lparr>n_low := n_low a + 1\<rparr>)"

definition count_error :: "pydict \<Rightarrow> acc \<Rightarrow> acc" where
  "count_error result a =
     (if truthy (dict_get_none result ''error'') then a\<lparr>n_err := n_err a + 1\<rparr> else a)"

text \<open>One pass of the loop body, in the order of the source's statements.\<close>

definition summary_step :: "acc \<Rightarrow> pydict \<Rightarrow> py_error + acc" where
  "summary_step a result =
     (let impact = dict_get result ''impact'' (PStr ''Neutral'');
          confidence = dict_get result ''confidence'' (PNum 0);
          a1 = count_impact impact a
      in case py_gt confidence 75 of
           Inl e \<Rightarrow> Inl e
         | Inr hi \<Rightarrow>
             (let a2 = count_error result (count_confidence hi a1)
              in case py_iter (dict_get result ''affected_coins'' (PList [])) of
                   Inl e \<Rightarrow> Inl e
                 | Inr coins \<Rightarrow>
                     Inr (a2\<lparr>confidences := confidences a2 @ [confidence],
                              all_coins := all_coins a2 @ coins\<rparr>)))"

fun summary_loop :: "acc \<Rightarrow> pydict list \<Rightarrow> py_error + acc" where
  "summary_loop a [] = Inr a"
| "summary_loop a (result # results) =
     (case summary_step a result of
        Inl e \<Rightarrow> Inl e
      | Inr a' \<Rightarrow> summary_loop a' results)"

definition average_of :: "(pyval list \<Rightarrow> py_error + 'f) \<Rightarrow> pyval list \<Rightarrow> py_error + 'f avg" where
  "average_of round_mean cs =
     (if cs \<noteq> [] then
        (case round_mean cs of Inl e \<Rightarrow> Inl e | Inr x \<Rightarrow> Inr (Rounded x))
      else Inr Float_Zero)"

definition top_coins_of :: "pyval list \<Rightarrow> py_error + (pyval \<times> nat) list" where
  "top_coins_of coins =
     (if coins \<noteq> [] then
        (case Counter coins of Inl e \<Rightarrow> Inl e | Inr cnt \<Rightarrow> Inr (most_common 5 cnt))
      else Inr [])"

definition generate_batch_summary ::
  "(pyval list \<Rightarrow> py_error + 'f) \<Rightarrow> pydict list \<Rightarrow> py_error + 'f batch_summary" where
  "generate_batch_summary round_mean results =
     (case summary_loop acc0 results of
        Inl e \<Rightarrow> Inl e
      | Inr a \<Rightarrow>
          (case average_of round_mean (confidences a) of
             Inl e \<Rightarrow> Inl e
           | Inr av \<Rightarrow>
               (case top_coins_of (all_coins a) of
                  Inl e \<Rightarrow> Inl e
                | Inr tops \<Rightarrow>
                    Inr \<lparr>positive_count = n_pos a, negative_count = n_neg a,
                         neutral_count = n_neu a, high_confidence_count = n_high a,
                         low_confidence_count = n_low a, error_count = n_err a,
                         avg_confidence = av, top_affected_coins = tops\<rparr>)))"

section \<open>The mean of integer confidences\<close>

text \<open>
  For confidences that are Python ints, \<^verbatim>\<open>sum(confidences)\<close> is exact and
  \<^verbatim>\<open>round(sum(confidences) / len(confidences), 1)\<close> takes two roundings, both modelled
  on the rationals. A double is a rational with a significand of 53 bits: the double
  nearest to \<open>x\<close> is \<open>x\<close> rounded to a multiple of \<open>2\<close> to the power \<open>e - 52\<close>, where
  \<open>e\<close> is the binary exponent of \<open>x\<close> (at least -1022, below which the doubles are
  equally spaced), a tie going to the even multiple. The binary exponent is read off
  \<^verbatim>\<open>int.bit_length\<close>.
\<close>

fun bit_length :: "nat \<Rightarrow> nat" where
  "bit_length n = (if n = 0 then 0 else Suc (bit_length (n div 2)))"

declare bit_length.simps [simp del]

definition round_half_even :: "rat \<Rightarrow> int" where
  "round_half_even x =
     (let f = \<lfloor>x\<rfloor>; r = x - of_int f
      in if r < 1 / 2 then f else if 1 / 2 < r then f + 1 else if even f then f else f + 1)"

definition exponent :: "rat \<Rightarrow> int" where
  "exponent x =
     (if 1 \<le> x then int (bit_length (nat \<lfloor>x\<rfloor>)) - 1
      else - int (bit_length (nat (\<lceil>1 / x\<rceil> - 1))))"

definition nearest_double :: "rat \<Rightarrow> rat" where
  "nearest_double x =
     (if x = 0 then 0
      else (let u = 2 powi (max (exponent \<bar>x\<bar>) (- 1022) - 52)
            in sgn x * (of_int (round_half_even (\<bar>x\<bar> / u)) * u)))"

text \<open>
  \<^verbatim>\<open>a / b\<close> on ints is the double nearest to the quotient, and raises
  \<^verbatim>\<open>OverflowError\<close> when that is beyond the largest double. \<^verbatim>\<open>round(x, 1)\<close> on a
  float is the double nearest to the decimal with one digit after the point that is
  nearest to \<open>x\<close>, a tie going to the even digit.
\<close>

definition true_divide :: "int \<Rightarrow> int \<Rightarrow> py_error + rat" where
  "true_divide a b =
     (if b = 0 then Inl (Raised ''ZeroDivisionError'')
      else (let v = nearest_double (of_int a / of_int b)
            in if 2 powi 1024 \<le> \<bar>v\<bar> then Inl OverflowError else Inr v))"

definition round_one_decimal :: "rat \<Rightarrow> rat" where
  "round_one_decimal x = nearest_double (of_int (round_half_even (10 * x)) / 10)"

definition round_mean_of_ints :: "int list \<Rightarrow> py_error + rat" where
  "round_mean_of_ints cs =
     (case true_divide (sum_list cs) (int (length cs)) of
        Inl e \<Rightarrow> Inl e
      | Inr q \<Rightarrow> Inr (round_one_decimal q))"

section \<open>Text\<close>

text \<open>
  \<^verbatim>\<open>str.strip()\<close> removes the leading and trailing characters for which
  \<^verbatim>\<open>str.isspace\<close> holds; below code point 256 these are the twelve listed. Calling
  \<^verbatim>\<open>.strip()\<close> on anything but a string raises \<^verbatim>\<open>AttributeError\<close>.
\<close>

definition is_space :: "char \<Rightarrow> bool" where
  "is_space c \<longleftrightarrow> (of_char c :: nat) \<in> {9, 10, 11, 12, 13, 28, 29, 30, 31, 32, 133, 160}"

definition strip :: "string \<Rightarrow> string" where
  "strip s = dropWhile is_space (rev (dropWhile is_space (rev s)))"

fun str_strip :: "pyval \<Rightarrow> py_error + string" where
  "str_strip (PStr s) = Inr (strip s)"
| "str_strip PNone = Inl AttributeError"
| "str_strip (PNum r) = Inl AttributeError"
| "str_strip (PList xs) = Inl AttributeError"
| "str_strip (PDict kvs) = Inl AttributeError"

section \<open>JSON-RPC responses\<close>

text \<open>
  \<^verbatim>\<open>create_mcp_response\<close> answers with the error when one is given and with the result
  otherwise. The \<^verbatim>\<open>data\<close> of an error is \<^verbatim>\<open>str(e)\<close> of the exception caught, kept
  here as the exception itself.
\<close>

record mcp_error =
  err_code :: int
  err_message :: string
  err_data :: "py_error option"

datatype 'r mcp_response =
    Response_Result pyval "'r option"
  | Response_Error pyval mcp_error

definition create_mcp_response :: "pyval \<Rightarrow> 'r option \<Rightarrow> mcp_error option \<Rightarrow> 'r mcp_response" where
  "create_mcp_response rid result error =
     (case error of Some e \<Rightarrow> Response_Error rid e | None \<Rightarrow> Response_Result rid result)"

definition create_mcp_error :: "int \<Rightarrow> string \<Rightarrow> py_error option \<Rightarrow> mcp_error" where
  "create_mcp_error c m d = \<lparr>err_code = c, err_message = m, err_data = d\<rparr>"

section \<open>The single-analysis handler\<close>

text \<open>
  The analyzer is a collaborator of the server and a parameter here; so are the request
  id and the timestamp, which the source reads off the clock. Next to its outcome (a
  response, or the exception that escapes it) the handler returns the calls it made to
  the analyzer, in order. The \<^verbatim>\<open>try\<close> of \<^verbatim>\<open>handle_tool_call\<close> turns an escaping
  exception into an internal-error response.
\<close>

type_synonym single_call = "string \<times> string \<times> string"

definition handle_single_analysis ::
  "(string \<Rightarrow> string \<Rightarrow> string \<Rightarrow> py_error + pydict) \<Rightarrow> string \<Rightarrow> string \<Rightarrow> pyval \<Rightarrow> pydict \<Rightarrow>
     (py_error + pydict mcp_response) \<times> single_call list" where
  "handle_single_analysis analyze_single request_id timestamp rid arguments =
     (case str_strip (dict_get arguments ''title'' (PStr [])) of
        Inl e \<Rightarrow> (Inl e, [])
      | Inr title \<Rightarrow>
     (case str_strip (dict_get arguments ''summary'' (PStr [])) of
        Inl e \<Rightarrow> (Inl e, [])
      | Inr summary \<Rightarrow>
     (case str_strip (dict_get arguments ''source'' (PStr [])) of
        Inl e \<Rightarrow> (Inl e, [])
      | Inr source \<Rightarrow>
          if title = [] \<or> summary = [] then
            (Inr (create_mcp_response rid None
               (Some (create_mcp_error (- 32602)
                  ''Invalid params: title and summary required'' None))), [])
          else
            (case analyze_single title summary request_id of
               Inl e \<Rightarrow>
                 (Inr (create_mcp_response rid None
                    (Some (create_mcp_error (- 32603) ''Analysis failed'' (Some e)))),
                  [(title, summary, request_id)])
             | Inr result \<Rightarrow>
                 (let response_data = (if source \<noteq> [] then result(''source'' \<mapsto> PStr source)
                                       else result);
                      response_data = response_data(''analysis_id'' \<mapsto> PStr request_id,
                                        ''timestamp'' \<mapsto> PStr timestamp)
                  in (Inr (create_mcp_response rid (Some response_data) None),
                      [(title, summary, request_id)]))))))"

definition tool_call_result :: "pyval \<Rightarrow> py_error + 'r mcp_response \<Rightarrow> 'r mcp_response" where
  "tool_call_result rid outcome =
     (case outcome of
        Inr response \<Rightarrow> response
      | Inl e \<Rightarrow> create_mcp_response rid None
                 (Some (create_mcp_error (- 32603) ''Internal server error'' (Some e))))"

section \<open>The batch-analysis handler\<close>

text \<open>
  \<^verbatim>\<open>f"{request_id}_item_{i}"\<close> prints the index in decimal. \<^verbatim>\<open>"source" in x\<close> looks
  for a key of a dictionary, a substring of a string or an element of a list, and raises
  \<^verbatim>\<open>TypeError\<close> on \<^verbatim>\<open>None\<close> and numbers; \<^verbatim>\<open>x["source"]\<close> is defined on
  dictionaries only.
\<close>

definition digit_char :: "nat \<Rightarrow> char" where
  "digit_char d = char_of (48 + d)"

function dec :: "nat \<Rightarrow> string" where
  "dec n = (if n < 10 then [digit_char n] else dec (n div 10) @ [digit_char (n mod 10)])"
  by pat_completeness auto
termination
  by (relation "measure (\<lambda>n. n)") auto

fun is_substring :: "string \<Rightarrow> string \<Rightarrow> bool" where
  "is_substring p [] = (p = [])"
| "is_substring p (c # cs) = (take (length p) (c # cs) = p \<or> is_substring p cs)"

fun py_in :: "string \<Rightarrow> pyval \<Rightarrow> py_error + bool" where
  "py_in k (PDict kvs) = Inr (k \<in> set (map fst kvs))"
| "py_in k (PStr s) = Inr (is_substring k s)"
| "py_in k (PList xs) = Inr (PStr k \<in> set xs)"
| "py_in k PNone = Inl TypeError"
| "py_in k (PNum r) = Inl TypeError"

fun py_getitem :: "pyval \<Rightarrow> string \<Rightarrow> py_error + pyval" where
  "py_getitem (PDict kvs) k = (case map_of kvs k of Some v \<Rightarrow> Inr v | None \<Rightarrow> Inl (Raised ''KeyError''))"
| "py_getitem (PStr s) k = Inl TypeError"
| "py_getitem (PList xs) k = Inl TypeError"
| "py_getitem PNone k = Inl TypeError"
| "py_getitem (PNum r) k = Inl TypeError"

text \<open>
  The handler: the two checks on \<^verbatim>\<open>news_items\<close>, then, inside the \<^verbatim>\<open>try\<close>, the call
  to the analyzer, the loop that writes the metadata into each result, the webhook when
  one is configured, and the summary. Any exception inside the \<^verbatim>\<open>try\<close> becomes the
  error \<^verbatim>\<open>Batch analysis failed\<close>. The analyzer and the webhook manager are
  collaborators of the server and parameters here; the analyzer is taken to return a
  fresh dictionary for each result. Next to its response the handler returns the calls it
  made to the analyzer.
\<close>

record 'f batch_response =
  br_results :: "pydict list"
  br_total_items :: nat
  br_request_id :: string
  br_timestamp :: string
  br_summary :: "'f batch_summary"

definition add_metadata :: "string \<Rightarrow> pyval list \<Rightarrow> nat \<Rightarrow> pydict \<Rightarrow> py_error + pydict" where
  "add_metadata request_id news_items i result =
     (let result = result(''item_index'' \<mapsto> PNum (of_nat i),
                          ''analysis_id'' \<mapsto> PStr (request_id @ ''_item_'' @ dec i))
      in if i < length news_items then
           (case py_in ''source'' (news_items ! i) of
              Inl e \<Rightarrow> Inl e
            | Inr False \<Rightarrow> Inr result
            | Inr True \<Rightarrow>
                (case py_getitem (news_items ! i) ''source'' of
                   Inl e \<Rightarrow> Inl e
                 | Inr v \<Rightarrow> Inr (result(''source'' \<mapsto> v))))
         else Inr result)"

fun add_metadata_loop :: "string \<Rightarrow> pyval list \<Rightarrow> nat \<Rightarrow> pydict list \<Rightarrow> py_error + pydict list" where
  "add_metadata_loop request_id news_items i [] = Inr []"
| "add_metadata_loop request_id news_items i (result # results) =
     (case add_metadata request_id news_items i result of
        Inl e \<Rightarrow> Inl e
      | Inr result' \<Rightarrow>
          (case add_metadata_loop request_id news_items (i + 1) results of
             Inl e \<Rightarrow> Inl e
           | Inr results' \<Rightarrow> Inr (result' # results')))"

type_synonym batch_call = "pyval list \<times> string"

definition batch_body ::
  "(pyval list \<Rightarrow> string \<Rightarrow> py_error + pydict list) \<Rightarrow>
   (pydict list \<Rightarrow> string \<Rightarrow> py_error + unit) option \<Rightarrow>
   (pyval list \<Rightarrow> py_error + 'f) \<Rightarrow> string \<Rightarrow> string \<Rightarrow> pyval list \<Rightarrow>
   py_error + 'f batch_response" where
  "batch_body analyze_batch webhook_manager round_mean request_id timestamp news_items =
     (case analyze_batch news_items request_id of
        Inl e \<Rightarrow> Inl e
      | Inr results \<Rightarrow>
     (case add_metadata_loop request_id news_items 0 results of
        Inl e \<Rightarrow> Inl e
      | Inr results \<Rightarrow>
     (case (case webhook_manager of
              None \<Rightarrow> Inr ()
            | Some send_batch_results \<Rightarrow> send_batch_results results request_id) of
        Inl e \<Rightarrow> Inl e
      | Inr u \<Rightarrow>
     (case generate_batch_summary round_mean results of
        Inl e \<Rightarrow> Inl e
      | Inr s \<Rightarrow>
          Inr \<lparr>br_results = results, br_total_items = length results,
               br_request_id = request_id, br_timestamp = timestamp, br_summary = s\<rparr>))))"

fun is_list :: "pyval \<Rightarrow> bool" where
  "is_list (PList xs) = True"
| "is_list v = False"

fun list_items :: "pyval \<Rightarrow> pyval list" where
  "list_items (PList xs) = xs"
| "list_items v = []"

definition handle_batch_analysis ::
  "(pyval list \<Rightarrow> string \<Rightarrow> py_error + pydict list) \<Rightarrow>
   (pydict list \<Rightarrow> string \<Rightarrow> py_error + unit) option \<Rightarrow>
   (pyval list \<Rightarrow> py_error + 'f) \<Rightarrow> string \<Rightarrow> string \<Rightarrow> pyval \<Rightarrow> pydict \<Rightarrow>
   'f batch_response mcp_response \<times> batch_call list" where
  "handle_batch_analysis analyze_batch webhook_manager round_mean request_id timestamp rid
     arguments =
     (let news_items = dict_get arguments ''news_items'' (PList [])
      in if \<not> truthy news_items \<or> \<not> is_list news_items then
           (create_mcp_response rid None
              (Some (create_mcp_error (- 32602)
                 ''Invalid params: news_items array required'' None)), [])
         else if length (list_items news_items) > 50 then
           (create_mcp_response rid None
              (Some (create_mcp_error (- 32602)
                 ''Batch size limit exceeded (max 50 items)'' None)), [])
         else
           (case batch_body analyze_batch webhook_manager round_mean request_id timestamp
                   (list_items news_items) of
              Inr response_data \<Rightarrow> create_mcp_response rid (Some response_data) None
            | Inl e \<Rightarrow> create_mcp_response rid None
                         (Some (create_mcp_error (- 32603) ''Batch analysis failed'' (Some e))),
            [(list_items news_items, request_id)]))"

section \<open>The analyzer's batch entry point\<close>

text \<open>
  \<^verbatim>\<open>CryptoNewsAnalyzer\<close> lives in \<^verbatim>\<open>news_analyzer.py\<close>, which is not among the
  sources; the three definitions below follow the specification's words. The scoring of
  one item is a parameter: it returns a result record, or the message of its failure.
\<close>

text \<open>
  Modelled from the spec: the result record of an item whose scoring failed, built inside
  the missing \<^verbatim>\<open>analyze_batch\<close>. The specification: the failing item's result carries
  \<^verbatim>\<open>error\<close> set, and when \<^verbatim>\<open>error\<close> is present impact and confidence fall back to
  Neutral and 0.
\<close>

definition failed_result :: "string \<Rightarrow> pydict" where
  "failed_result msg =
     [''impact'' \<mapsto> PStr ''Neutral'', ''confidence'' \<mapsto> PNum 0, ''error'' \<mapsto> PStr msg]"

text \<open>
  Modelled from the spec: what the missing \<^verbatim>\<open>analyze_batch\<close> makes of one item. The
  specification: a failure scoring one item is contained in that item's result.
\<close>

definition item_result :: "(pyval \<Rightarrow> string \<Rightarrow> string + pydict) \<Rightarrow> string \<Rightarrow> pyval \<Rightarrow> pydict" where
  "item_result analyze_item request_id item =
     (case analyze_item item request_id of
        Inl msg \<Rightarrow> failed_result msg
      | Inr result \<Rightarrow> result)"

text \<open>
  Modelled from the spec: the missing \<^verbatim>\<open>CryptoNewsAnalyzer.analyze_batch\<close>. The
  specification: it processes each item independently and in input order, a failure
  scoring one item does not abort the remaining items, and the output order matches the
  input order exactly. It raises nothing itself.
\<close>

definition analyze_batch ::
  "(pyval \<Rightarrow> string \<Rightarrow> string + pydict) \<Rightarrow> pyval list \<Rightarrow> string \<Rightarrow> py_error + pydict list" where
  "analyze_batch analyze_item news_items request_id =
     Inr (map (item_result analyze_item request_id) news_items)"

section \<open>The keyword handler\<close>

text \<open>
  Below code point 256, \<^verbatim>\<open>\w\<close> of the \<^verbatim>\<open>re\<close> module matches the characters listed in
  \<open>is_word_char\<close>, \<^verbatim>\<open>str.lower()\<close> changes the characters of \<open>is_upper\<close> (each by adding
  32), and two characters match under \<^verbatim>\<open>re.IGNORECASE\<close> exactly when their lower-case
  forms are equal.
\<close>

definition is_word_char :: "char \<Rightarrow> bool" where
  "is_word_char c \<longleftrightarrow>
     (let n = (of_char c :: nat)
      in (48 \<le> n \<and> n \<le> 57) \<or> (65 \<le> n \<and> n \<le> 90) \<or> n = 95 \<or> (97 \<le> n \<and> n \<le> 122) \<or>
         n \<in> {170, 178, 179, 181, 185, 186, 188, 189, 190} \<or>
         (192 \<le> n \<and> n \<le> 214) \<or> (216 \<le> n \<and> n \<le> 246) \<or> (248 \<le> n \<and> n \<le> 255))"

definition is_upper :: "char \<Rightarrow> bool" where
  "is_upper c \<longleftrightarrow>
     (let n = (of_char c :: nat)
      in (65 \<le> n \<and> n \<le> 90) \<or> (192 \<le> n \<and> n \<le> 222 \<and> n \<noteq> 215))"

definition lower_char :: "char \<Rightarrow> char" where
  "lower_char c = (if is_upper c then char_of ((of_char c :: nat) + 32) else c)"

definition py_lower :: "string \<Rightarrow> string" where
  "py_lower s = map lower_char s"

text \<open>
  \<^verbatim>\<open>re.search(r'\b' + re.escape(keyword) + r'\b', text, re.IGNORECASE)\<close>: the scan
  tries each start position from the left, carrying whether the character before it is a
  word character. At a position the pattern asks for a word boundary, then the characters
  of the keyword up to case, then a word boundary again.
\<close>

definition word_after :: "string \<Rightarrow> bool" where
  "word_after s = (case s of [] \<Rightarrow> False | c # cs \<Rightarrow> is_word_char c)"

fun match_literal :: "string \<Rightarrow> bool \<Rightarrow> string \<Rightarrow> bool" where
  "match_literal [] before rest = (before \<noteq> word_after rest)"
| "match_literal (k # ks) before [] = False"
| "match_literal (k # ks) before (c # cs) =
     (lower_char k = lower_char c \<and> match_literal ks (is_word_char c) cs)"

definition match_here :: "string \<Rightarrow> bool \<Rightarrow> string \<Rightarrow> bool" where
  "match_here keyword before rest \<longleftrightarrow>
     before \<noteq> word_after rest \<and> match_literal keyword before rest"

fun search_from :: "string \<Rightarrow> bool \<Rightarrow> string \<Rightarrow> bool" where
  "search_from keyword before [] = match_here keyword before []"
| "search_from keyword before (c # cs) =
     (match_here keyword before (c # cs) \<or> search_from keyword (is_word_char c) cs)"

definition re_search_word :: "string \<Rightarrow> string \<Rightarrow> bool" where
  "re_search_word keyword text = search_from keyword False text"

text \<open>
  The handler: it trims the text, answers invalid params when nothing is left, and
  otherwise, inside its \<^verbatim>\<open>try\<close>, runs the analyzer's scorer on the lower-cased text,
  walks the positive and the negative lexicon in their order and keeps the keywords the
  search finds in the trimmed text, and asks the analyzer for the coins. The two
  lexicons, the scorer and the coin detector belong to the analyzer and are parameters
  here.
\<close>

datatype 'w keyword_entry = Keyword string | Weighted string 'w

record ('w, 'i, 'c, 'd) keyword_result =
  kr_impact :: 'i
  kr_confidence :: 'c
  kr_positive_keywords :: "'w keyword_entry list"
  kr_negative_keywords :: "'w keyword_entry list"
  kr_detected_coins :: 'd
  kr_total_keywords :: nat
  kr_analysis_timestamp :: string

fun detected_keywords :: "(string \<times> 'w) list \<Rightarrow> string \<Rightarrow> bool \<Rightarrow> 'w keyword_entry list" where
  "detected_keywords [] text include_weights = []"
| "detected_keywords ((keyword, weight) # lexicon) text include_weights =
     (if re_search_word keyword text then
        (if include_weights then Weighted keyword weight else Keyword keyword)
          # detected_keywords lexicon text include_weights
      else detected_keywords lexicon text include_weights)"

definition handle_keyword_analysis ::
  "(string \<times> 'w) list \<Rightarrow> (string \<times> 'w) list \<Rightarrow> (string \<Rightarrow> py_error + 'i \<times> 'c) \<Rightarrow>
   (string \<Rightarrow> py_error + 'd) \<Rightarrow> string \<Rightarrow> pyval \<Rightarrow> pydict \<Rightarrow>
   py_error + ('w, 'i, 'c, 'd) keyword_result mcp_response" where
  "handle_keyword_analysis positive_keywords negative_keywords keyword_analysis detect_coins
     timestamp rid arguments =
     (case str_strip (dict_get arguments ''text'' (PStr [])) of
        Inl e \<Rightarrow> Inl e
      | Inr text \<Rightarrow>
          (let include_weights = truthy (dict_get arguments ''include_weights'' (PNum 0))
           in if text = [] then
                Inr (create_mcp_response rid None
                  (Some (create_mcp_error (- 32602) ''Invalid params: text required'' None)))
              else
                (case keyword_analysis (py_lower text) of
                   Inl e \<Rightarrow> Inr (create_mcp_response rid None
                             (Some (create_mcp_error (- 32603) ''Keyword analysis failed'' (Some e))))
                 | Inr (impact, confidence) \<Rightarrow>
                     (let positive = detected_keywords positive_keywords text include_weights;
                          negative = detected_keywords negative_keywords text include_weights
                      in case detect_coins text of
                           Inl e \<Rightarrow> Inr (create_mcp_response rid None
                             (Some (create_mcp_error (- 32603) ''Keyword analysis failed'' (Some e))))
                         | Inr detected_coins \<Rightarrow>
                             Inr (create_mcp_response rid
                               (Some \<lparr>kr_impact = impact, kr_confidence = confidence,
                                      kr_positive_keywords = positive,
                                      kr_negative_keywords = negative,
                                      kr_detected_coins = detected_coins,
                                      kr_total_keywords = length positive + length negative,
                                      kr_analysis_timestamp = timestamp\<rparr>) None)))))"

section \<open>Notions for stating the properties\<close>

subsection \<open>Result records\<close>

text \<open>
  The three fields the summary reads, with the defaults \<^verbatim>\<open>.get\<close> supplies, and the
  conditions under which the loop body raises nothing: a confidence that is present must
  be a number, an \<^verbatim>\<open>affected_coins\<close> that is present must be iterable. A missing field
  meets both.
\<close>

fun is_number :: "pyval \<Rightarrow> bool" where
  "is_number (PNum r) = True"
| "is_number v = False"

fun iterable :: "pyval \<Rightarrow> bool" where
  "iterable (PList xs) = True"
| "iterable (PStr s) = True"
| "iterable (PDict kvs) = True"
| "iterable v = False"

definition impact_of :: "pydict \<Rightarrow> pyval" where
  "impact_of r = dict_get r ''impact'' (PStr ''Neutral'')"

definition confidence_of :: "pydict \<Rightarrow> pyval" where
  "confidence_of r = dict_get r ''confidence'' (PNum 0)"

definition coins_of :: "pydict \<Rightarrow> pyval list" where
  "coins_of r =
     (case py_iter (dict_get r ''affected_coins'' (PList [])) of
        Inl e \<Rightarrow> [] | Inr cs \<Rightarrow> cs)"

definition readable :: "pydict \<Rightarrow> bool" where
  "readable r \<longleftrightarrow>
     (case r ''confidence'' of None \<Rightarrow> True | Some v \<Rightarrow> is_number v) \<and>
     (case r ''affected_coins'' of None \<Rightarrow> True | Some v \<Rightarrow> iterable v)"

definition is_high :: "pydict \<Rightarrow> bool" where
  "is_high r = (case confidence_of r of PNum x \<Rightarrow> x > 75 | _ \<Rightarrow> False)"

definition has_error :: "pydict \<Rightarrow> bool" where
  "has_error r = truthy (dict_get_none r ''error'')"

definition mean_defined :: "(pyval list \<Rightarrow> py_error + 'f) \<Rightarrow> pydict list \<Rightarrow> bool" where
  "mean_defined round_mean rs \<longleftrightarrow> rs = [] \<or> \<not> isl (round_mean (map confidence_of rs))"

definition summarisable :: "(pyval list \<Rightarrow> py_error + 'f) \<Rightarrow> pydict list \<Rightarrow> bool" where
  "summarisable round_mean rs \<longleftrightarrow>
     list_all readable rs \<and> list_all hashable (concat (map coins_of rs)) \<and>
     mean_defined round_mean rs"

definition with_defaults :: "pydict \<Rightarrow> pydict" where
  "with_defaults r =
     r(''impact'' \<mapsto>
         (if impact_of r = PStr ''Positive'' \<or> impact_of r = PStr ''Negative''
          then impact_of r else PStr ''Neutral''),
       ''confidence'' \<mapsto> confidence_of r,
       ''affected_coins'' \<mapsto> dict_get r ''affected_coins'' (PList []))"

definition impact_other :: "pydict \<Rightarrow> bool" where
  "impact_other r \<longleftrightarrow>
     r ''impact'' \<noteq> Some (PStr ''Positive'') \<and> r ''impact'' \<noteq> Some (PStr ''Negative'')"

subsection \<open>Ranking\<close>

text \<open>
  The ranking the specification describes, in its own words: the coins mentioned, each
  once, ordered by falling number of mentions and, among equals, by the position of
  their first mention; the first \<open>n\<close> of them, each with its number of mentions.
\<close>

definition first_index :: "'a list \<Rightarrow> 'a \<Rightarrow> nat" where
  "first_index xs c = length (takeWhile (\<lambda>x. x \<noteq> c) xs)"

definition rank_key :: "'a list \<Rightarrow> 'a \<Rightarrow> int \<times> nat" where
  "rank_key xs c = (- int (count_list xs c), first_index xs c)"

definition top_mentioned :: "nat \<Rightarrow> 'a list \<Rightarrow> ('a \<times> nat) list" where
  "top_mentioned n xs =
     map (\<lambda>c. (c, count_list xs c)) (take n (sort_key (rank_key xs) (remdups xs)))"

definition coin_mentions :: "pydict list \<Rightarrow> pyval list" where
  "coin_mentions rs = concat (map coins_of rs)"

text \<open>
  What the counter holds after reading \<open>xs\<close>: the keys in the order they were first
  seen, each with its count.
\<close>

definition first_seen :: "'a list \<Rightarrow> 'a list" where
  "first_seen xs = rev (remdups (rev xs))"

definition counted :: "'a list \<Rightarrow> 'a list \<Rightarrow> ('a \<times> nat) list" where
  "counted ks xs = map (\<lambda>c. (c, count_list xs c)) ks"

definition three_results :: "pydict list" where
  "three_results =
     [[''affected_coins'' \<mapsto> PList [PStr ''ETH'', PStr ''BTC'']],
      [''affected_coins'' \<mapsto> PList [PStr ''BTC'', PStr ''SOL'', PStr ''ETH'', PStr ''ADA'']],
      [''affected_coins'' \<mapsto> PList [PStr ''XRP'', PStr ''DOT'', PStr ''DOT'']]]"

subsection \<open>Requests\<close>

text \<open>
  The stripped text of an argument of a request: empty when the argument is missing,
  none when it is present and not a string. The validation error of the single-analysis
  handler, and an analyzer for the concrete runs.
\<close>

definition arg_text :: "pydict \<Rightarrow> string \<Rightarrow> string option" where
  "arg_text arguments k =
     (case arguments k of
        None \<Rightarrow> Some []
      | Some (PStr s) \<Rightarrow> Some (strip s)
      | Some v \<Rightarrow> None)"

definition invalid_single :: "pyval \<Rightarrow> pydict mcp_response" where
  "invalid_single rid =
     Response_Error rid \<lparr>err_code = - 32602,
       err_message = ''Invalid params: title and summary required'', err_data = None\<rparr>"

definition neutral_analyzer :: "string \<Rightarrow> string \<Rightarrow> string \<Rightarrow> py_error + pydict" where
  "neutral_analyzer title summary request_id =
     Inr [''impact'' \<mapsto> PStr ''Neutral'', ''confidence'' \<mapsto> PNum 50]"

text \<open>
  The answers of the batch handler that reject a request as invalid, the keys the handler
  writes into a result, and a scoring function and three items for the concrete runs.
\<close>

definition is_invalid_params :: "'r mcp_response \<Rightarrow> bool" where
  "is_invalid_params response =
     (case response of
        Response_Error rid e \<Rightarrow> err_code e = - 32602
      | Response_Result rid r \<Rightarrow> False)"

definition batch_too_large :: "pyval \<Rightarrow> 'r mcp_response" where
  "batch_too_large rid =
     Response_Error rid \<lparr>err_code = - 32602,
       err_message = ''Batch size limit exceeded (max 50 items)'', err_data = None\<rparr>"

definition metadata_keys :: "string set" where
  "metadata_keys = {''item_index'', ''analysis_id'', ''source''}"

definition title_scorer :: "pyval \<Rightarrow> string \<Rightarrow> string + pydict" where
  "title_scorer item request_id =
     (case py_getitem item ''title'' of
        Inr (PStr t) \<Rightarrow>
          if strip t = [] then Inl ''empty title''
          else Inr [''impact'' \<mapsto> PStr ''Neutral'', ''confidence'' \<mapsto> PNum 50]
      | _ \<Rightarrow> Inl ''no title'')"

definition three_items :: "pyval list" where
  "three_items =
     [PDict [(''title'', PStr ''Bitcoin up''), (''source'', PStr ''wire'')],
      PDict [(''title'', PStr '' '')],
      PDict [(''title'', PStr ''ETF approved'')]]"

subsection \<open>Keywords\<close>

text \<open>
  What it means for a keyword to be present in a text, in the specification's words: the
  text splits into a part before, a part equal to the keyword up to case, and a part
  after, with a word boundary on both sides of the middle part. A keyword is embedded
  only when each of its occurrences has a word character right before or right after it.
  Then the report of the entries found, a small lexicon and a request for the concrete
  runs.
\<close>

definition word_before :: "bool \<Rightarrow> string \<Rightarrow> bool" where
  "word_before b s = (if s = [] then b else is_word_char (last s))"

definition same_ignoring_case :: "string \<Rightarrow> string \<Rightarrow> bool" where
  "same_ignoring_case a b \<longleftrightarrow> map lower_char a = map lower_char b"

definition boundary_between :: "string \<Rightarrow> string \<Rightarrow> bool" where
  "boundary_between left right \<longleftrightarrow> word_before False left \<noteq> word_after right"

definition word_bounded_match :: "string \<Rightarrow> string \<Rightarrow> bool" where
  "word_bounded_match keyword text \<longleftrightarrow>
     (\<exists>pre mid post. text = pre @ mid @ post \<and> same_ignoring_case mid keyword \<and>
        boundary_between pre (mid @ post) \<and> boundary_between (pre @ mid) post)"

definition report :: "bool \<Rightarrow> (string \<times> 'w) list \<Rightarrow> 'w keyword_entry list" where
  "report include_weights entries =
     map (\<lambda>(keyword, weight). if include_weights then Weighted keyword weight else Keyword keyword)
       entries"

definition present_in :: "string \<Rightarrow> (string \<times> 'w) list \<Rightarrow> (string \<times> 'w) list" where
  "present_in text lexicon = filter (\<lambda>(keyword, weight). word_bounded_match keyword text) lexicon"

definition embedded_only :: "string \<Rightarrow> string \<Rightarrow> bool" where
  "embedded_only keyword text \<longleftrightarrow>
     (\<forall>pre mid post. text = pre @ mid @ post \<and> same_ignoring_case mid keyword \<longrightarrow>
        word_before False pre \<or> word_after post)"

definition demo_positive :: "(string \<times> rat) list" where
  "demo_positive = [(''surge'', 8), (''rally'', 6)]"

definition demo_negative :: "(string \<times> rat) list" where
  "demo_negative = [(''ban'', 9), (''hack'', 7)]"

definition demo_scorer :: "string \<Rightarrow> py_error + string \<times> nat" where
  "demo_scorer text = Inr (''Neutral'', 50)"

definition demo_detector :: "string \<Rightarrow> py_error + string list" where
  "demo_detector text = Inr []"

definition demo_arguments :: pydict where
  "demo_arguments = [''text'' \<mapsto> PStr '' Urban prices Surge '', ''include_weights'' \<mapsto> PNum 1]"

subsection \<open>The average\<close>

text \<open>
  The arithmetic mean of the confidences of the results, a missing confidence being 0;
  the float that is written with one decimal, \<open>k\<close> tenths; a mean that lies exactly
  halfway between two values of one decimal; results whose confidence is an int from 0
  to 100, and that int.
\<close>

fun number_value :: "pyval \<Rightarrow> rat" where
  "number_value (PNum x) = x"
| "number_value v = 0"

definition mean_confidence :: "pydict list \<Rightarrow> rat" where
  "mean_confidence rs = sum_list (map (\<lambda>r. number_value (confidence_of r)) rs) / of_nat (length rs)"

definition one_decimal :: "int \<Rightarrow> rat" where
  "one_decimal k = nearest_double (of_int k / 10)"

definition halfway :: "rat \<Rightarrow> bool" where
  "halfway m \<longleftrightarrow> 10 * m - of_int \<lfloor>10 * m\<rfloor> = 1 / 2"

fun int_value :: "pyval \<Rightarrow> int" where
  "int_value (PNum x) = \<lfloor>x\<rfloor>"
| "int_value v = 0"

definition int_confidence :: "pydict \<Rightarrow> int" where
  "int_confidence r = int_value (confidence_of r)"

definition whole_percent :: "pydict \<Rightarrow> bool" where
  "whole_percent r \<longleftrightarrow>
     (case confidence_of r of
        PNum x \<Rightarrow> x = of_int \<lfloor>x\<rfloor> \<and> 0 \<le> x \<and> x \<le> 100
      | _ \<Rightarrow> False)"

text \<open>
  A stand-in for the float arithmetic that is Python's when every confidence is an int,
  and three sequences of results for the concrete runs: confidences 80, 75 and none;
  1 and three times none; 7 and nineteen times none.
\<close>

definition int_round_mean :: "pyval list \<Rightarrow> py_error + rat" where
  "int_round_mean cs = round_mean_of_ints (map int_value cs)"

definition three_confidences :: "pydict list" where
  "three_confidences = [[''confidence'' \<mapsto> PNum 80], [''confidence'' \<mapsto> PNum 75], Map.empty]"

definition one_in_four :: "pydict list" where
  "one_in_four = [[''confidence'' \<mapsto> PNum 1], Map.empty, Map.empty, Map.empty]"

definition one_in_twenty :: "pydict list" where
  "one_in_twenty = [''confidence'' \<mapsto> PNum 7] # replicate 19 Map.empty"

text \<open>A stand-in for the float arithmetic, for the concrete runs below: it never raises.\<close>

definition some_float :: "pyval list \<Rightarrow> py_error + unit" where
  "some_float cs = Inr ()"

section \<open>The loop over the results\<close>

lemma readable_iff:
  "readable r \<longleftrightarrow>
     is_number (confidence_of r) \<and> iterable (dict_get r ''affected_coins'' (PList []))"
  by (simp add: readable_def confidence_of_def dict_get_def split: option.splits)

lemma py_gt_Inr: "py_gt v n = Inr b \<longleftrightarrow> (\<exists>x. v = PNum x \<and> b = (x > n))"
  by (cases v) auto

lemma py_gt_Inl: "py_gt v n = Inl e \<longleftrightarrow> \<not> is_number v \<and> e = TypeError"
  by (cases v) auto

lemma py_iter_Inl: "py_iter v = Inl e \<longleftrightarrow> \<not> iterable v \<and> e = TypeError"
  by (cases v) auto

lemma py_iter_Inr: "py_iter v = Inr cs \<Longrightarrow> iterable v"
  by (cases v) auto

lemma py_gt_number: "py_gt v n = Inr b \<Longrightarrow> is_number v"
  by (cases v) auto

lemma step_error: "summary_step a r = Inl e \<longleftrightarrow> \<not> readable r \<and> e = TypeError"
  by (auto simp: summary_step_def Let_def readable_iff confidence_of_def py_gt_Inl py_iter_Inl
      split: sum.splits dest: py_gt_number py_iter_Inr)

lemma step_fields:
  assumes "summary_step a r = Inr a'"
  shows "n_pos a' = n_pos a + (if impact_of r = PStr ''Positive'' then 1 else 0)"
    and "n_neg a' = n_neg a + (if impact_of r = PStr ''Negative'' then 1 else 0)"
    and "n_neu a' = n_neu a +
           (if impact_of r \<noteq> PStr ''Positive'' \<and> impact_of r \<noteq> PStr ''Negative'' then 1 else 0)"
    and "n_high a' = n_high a + (if is_high r then 1 else 0)"
    and "n_low a' = n_low a + (if is_high r then 0 else 1)"
    and "n_err a' = n_err a + (if has_error r then 1 else 0)"
    and "confidences a' = confidences a @ [confidence_of r]"
    and "all_coins a' = all_coins a @ coins_of r"
  using assms
  by (auto simp: summary_step_def Let_def impact_of_def confidence_of_def coins_of_def
      is_high_def has_error_def count_impact_def count_confidence_def count_error_def py_gt_Inr
      split: sum.splits)


lemma loop_error: "summary_loop a rs = Inl e \<longleftrightarrow> \<not> list_all readable rs \<and> e = TypeError"
proof (induction rs arbitrary: a)
  case Nil
  show ?case by simp
next
  case (Cons r rs)
  show ?case
  proof (cases "summary_step a r")
    case (Inl e')
    then show ?thesis using step_error [of a r e'] by auto
  next
    case (Inr a')
    have "readable r" using Inr step_error [of a r TypeError] by auto
    then show ?thesis using Inr Cons.IH [of a'] by simp
  qed
qed


lemma loop_fields:
  "summary_loop a rs = Inr a' \<Longrightarrow>
     n_pos a' = n_pos a + length (filter (\<lambda>r. impact_of r = PStr ''Positive'') rs) \<and>
     n_neg a' = n_neg a + length (filter (\<lambda>r. impact_of r = PStr ''Negative'') rs) \<and>
     n_neu a' = n_neu a + length (filter (\<lambda>r. impact_of r \<noteq> PStr ''Positive'' \<and>
           impact_of r \<noteq> PStr ''Negative'') rs) \<and>
     n_high a' = n_high a + length (filter is_high rs) \<and>
     n_low a' = n_low a + length (filter (\<lambda>r. \<not> is_high r) rs) \<and>
     n_err a' = n_err a + length (filter has_error rs) \<and>
     confidences a' = confidences a @ map confidence_of rs \<and>
     all_coins a' = all_coins a @ concat (map coins_of rs)"
proof (induction rs arbitrary: a)
  case Nil
  then show ?case by simp
next
  case (Cons r rs)
  from Cons.prems obtain b where b: "summary_step a r = Inr b" "summary_loop b rs = Inr a'"
    by (auto split: sum.splits)
  show ?case using Cons.IH [OF b(2)] step_fields [OF b(1)] by simp
qed

lemma counter_update_error:
  "counter_update m xs = Inl e \<longleftrightarrow> \<not> list_all hashable xs \<and> e = TypeError"
  by (induction xs arbitrary: m) auto

lemma summary_returns:
  assumes "summarisable rm rs"
  shows "\<exists>s. generate_batch_summary rm rs = Inr s"
proof -
  obtain a where a: "summary_loop acc0 rs = Inr a"
    using assms loop_error [of acc0 rs] by (cases "summary_loop acc0 rs") (auto simp: summarisable_def)
  have cs: "confidences a = map confidence_of rs" and co: "all_coins a = concat (map coins_of rs)"
    using loop_fields [OF a] by (simp_all add: acc0_def)
  have "\<exists>av. average_of rm (map confidence_of rs) = Inr av"
    using assms unfolding average_of_def summarisable_def mean_defined_def
    by (cases "rm (map confidence_of rs)") auto
  then obtain av where av: "average_of rm (confidences a) = Inr av"
    unfolding cs by blast
  have "\<exists>cnt. top_coins_of (concat (map coins_of rs)) = Inr cnt"
    using assms counter_update_error [of "[]" "concat (map coins_of rs)"]
    unfolding top_coins_of_def summarisable_def Counter_def
    by (cases "counter_update [] (concat (map coins_of rs))") auto
  then obtain cnt where cnt: "top_coins_of (all_coins a) = Inr cnt"
    unfolding co by blast
  show ?thesis by (simp add: generate_batch_summary_def a av cnt)
qed

lemma summary_fields:
  assumes "generate_batch_summary rm rs = Inr s"
  shows "positive_count s = length (filter (\<lambda>r. impact_of r = PStr ''Positive'') rs)"
    and "negative_count s = length (filter (\<lambda>r. impact_of r = PStr ''Negative'') rs)"
    and "neutral_count s = length (filter (\<lambda>r. impact_of r \<noteq> PStr ''Positive'' \<and>
           impact_of r \<noteq> PStr ''Negative'') rs)"
    and "high_confidence_count s = length (filter is_high rs)"
    and "low_confidence_count s = length (filter (\<lambda>r. \<not> is_high r) rs)"
    and "error_count s = length (filter has_error rs)"
    and "top_coins_of (concat (map coins_of rs)) = Inr (top_affected_coins s)"
    and "average_of rm (map confidence_of rs) = Inr (avg_confidence s)"
proof -
  from assms obtain a av tops where a: "summary_loop acc0 rs = Inr a"
    and av: "average_of rm (confidences a) = Inr av"
    and tops: "top_coins_of (all_coins a) = Inr tops"
    and s: "s = \<lparr>positive_count = n_pos a, negative_count = n_neg a,
                         neutral_count = n_neu a, high_confidence_count = n_high a,
                         low_confidence_count = n_low a, error_count = n_err a,
                         avg_confidence = av, top_affected_coins = tops\<rparr>"
    by (auto simp: generate_batch_summary_def split: sum.splits)
  note f = loop_fields [OF a]
  show "positive_count s = length (filter (\<lambda>r. impact_of r = PStr ''Positive'') rs)"
    using f by (simp add: s acc0_def)
  show "negative_count s = length (filter (\<lambda>r. impact_of r = PStr ''Negative'') rs)"
    using f by (simp add: s acc0_def)
  show "neutral_count s = length (filter (\<lambda>r. impact_of r \<noteq> PStr ''Positive'' \<and>
           impact_of r \<noteq> PStr ''Negative'') rs)"
    using f by (simp add: s acc0_def)
  show "high_confidence_count s = length (filter is_high rs)"
    using f by (simp add: s acc0_def)
  show "low_confidence_count s = length (filter (\<lambda>r. \<not> is_high r) rs)"
    using f by (simp add: s acc0_def)
  show "error_count s = length (filter has_error rs)"
    using f by (simp add: s acc0_def)
  show "top_coins_of (concat (map coins_of rs)) = Inr (top_affected_coins s)"
    using f tops by (simp add: s acc0_def)
  show "average_of rm (map confidence_of rs) = Inr (avg_confidence s)"
    using f av by (simp add: s acc0_def)
qed

lemma three_way_split:
  assumes "\<And>x. \<not> (P x \<and> Q x)"
  shows "length (filter P xs) + length (filter Q xs) +
           length (filter (\<lambda>x. \<not> P x \<and> \<not> Q x) xs) = length xs"
  using assms by (induction xs) auto

lemma defaults_reads:
  "count_impact (dict_get (with_defaults r) ''impact'' d) a =
     count_impact (dict_get r ''impact'' (PStr ''Neutral'')) a"
  "dict_get (with_defaults r) ''confidence'' d' = dict_get r ''confidence'' (PNum 0)"
  "dict_get (with_defaults r) ''affected_coins'' d'' = dict_get r ''affected_coins'' (PList [])"
  "count_error (with_defaults r) = count_error r"
  by (simp_all add: with_defaults_def dict_get_def dict_get_none_def impact_of_def
      confidence_of_def count_impact_def count_error_def fun_eq_iff)

lemma step_with_defaults: "summary_step a (with_defaults r) = summary_step a r"
  unfolding summary_step_def Let_def defaults_reads ..

lemma loop_with_defaults: "summary_loop a (map with_defaults rs) = summary_loop a rs"
  by (induction rs arbitrary: a) (simp_all add: step_with_defaults split: sum.splits)

lemma impact_other_iff:
  "impact_other =
     (\<lambda>r. impact_of r \<noteq> PStr ''Positive'' \<and> impact_of r \<noteq> PStr ''Negative'')"
  by (auto simp: impact_other_def impact_of_def dict_get_def fun_eq_iff split: option.splits)

section \<open>Counting and ranking\<close>

lemma first_seen_snoc:
  "first_seen (xs @ [x]) = (if x \<in> set xs then first_seen xs else first_seen xs @ [x])"
  by (simp add: first_seen_def)

lemma first_seen_set [simp]: "set (first_seen xs) = set xs"
  by (simp add: first_seen_def)

lemma first_seen_distinct [simp]: "distinct (first_seen xs)"
  by (simp add: first_seen_def)

lemma counter_update_snoc:
  "counter_update m (xs @ [x]) =
     (case counter_update m xs of
        Inl e \<Rightarrow> Inl e
      | Inr m' \<Rightarrow> if hashable x then Inr (counter_add m' x) else Inl TypeError)"
  by (induction xs arbitrary: m) auto

lemma counter_add_counted:
  assumes "distinct ks"
  shows "counter_add (counted ks xs) x =
           (if x \<in> set ks then counted ks (xs @ [x])
            else counted ks (xs @ [x]) @ [(x, 1)])"
  using assms by (induction ks) (auto simp: counted_def)

lemma counted_snoc: "counted (ks @ [k]) xs = counted ks xs @ [(k, count_list xs k)]"
  by (simp add: counted_def)

lemma Counter_counted:
  "list_all hashable xs \<Longrightarrow> counter_update [] xs = Inr (counted (first_seen xs) xs)"
proof (induction xs rule: rev_induct)
  case Nil
  show ?case by (simp add: counted_def first_seen_def)
next
  case (snoc x xs)
  then have IH: "counter_update [] xs = Inr (counted (first_seen xs) xs)" and hx: "hashable x"
    by simp_all
  have step: "counter_update [] (xs @ [x]) = Inr (counter_add (counted (first_seen xs) xs) x)"
    by (simp add: counter_update_snoc IH hx)
  show ?case
  proof (cases "x \<in> set xs")
    case True
    then show ?thesis by (simp add: step counter_add_counted first_seen_snoc)
  next
    case False
    then have "count_list (xs @ [x]) x = 1" by (simp add: count_list_0_iff)
    then show ?thesis using False
      by (simp add: step counter_add_counted first_seen_snoc counted_snoc)
  qed
qed

lemma first_index_less: "c \<in> set xs \<Longrightarrow> first_index xs c < length xs"
  unfolding first_index_def by (induction xs) auto

lemma first_index_nth: "c \<in> set xs \<Longrightarrow> xs ! first_index xs c = c"
  unfolding first_index_def by (induction xs) auto

lemma first_index_inj: "inj_on (first_index xs) (set xs)"
  by (rule inj_onI) (metis first_index_nth)

lemma first_index_snoc:
  "c \<in> set xs \<Longrightarrow> first_index (xs @ [x]) c = first_index xs c"
  "x \<notin> set xs \<Longrightarrow> first_index (xs @ [x]) x = length xs"
  unfolding first_index_def by (induction xs) auto

lemma first_seen_sorted: "sorted (map (first_index xs) (first_seen xs))"
proof (induction xs rule: rev_induct)
  case Nil
  show ?case by (simp add: first_seen_def)
next
  case (snoc x xs)
  have eq: "map (first_index (xs @ [x])) (first_seen xs) = map (first_index xs) (first_seen xs)"
    by (rule map_cong) (simp_all add: first_index_snoc)
  have sorted_old: "sorted (map (first_index (xs @ [x])) (first_seen xs))"
    unfolding eq by (rule snoc)
  show ?case
  proof (cases "x \<in> set xs")
    case True
    then show ?thesis using sorted_old by (simp add: first_seen_snoc)
  next
    case False
    have "first_index (xs @ [x]) c \<le> length xs" if "c \<in> set xs" for c
      using that first_index_less [of c xs] by (simp add: first_index_snoc)
    then show ?thesis using False sorted_old
      by (simp add: first_seen_snoc first_index_snoc sorted_append)
  qed
qed

lemma sort_key_map: "sort_key f (map g xs) = map g (sort_key (\<lambda>x. f (g x)) xs)"
proof (induction xs)
  case Nil
  show ?case by simp
next
  case (Cons x xs)
  have "insort_key f (g x) (map g ys) = map g (insort_key (\<lambda>x. f (g x)) x ys)" for ys
    by (induction ys) simp_all
  then show ?case using Cons by simp
qed

lemma sorted_fst_of_pairs:
  "sorted (map (\<lambda>c. (a c, b c)) L) \<Longrightarrow> sorted (map a L)"
  by (induction L) (auto simp: less_eq_prod_def)

lemma sorted_snd_of_pairs:
  "sorted (map (\<lambda>c. (a c, b c)) L) \<Longrightarrow> sorted (map b (filter (\<lambda>c. a c = v) L))"
  by (induction L) (auto simp: less_eq_prod_def)

lemma same_order_unique:
  assumes "distinct A" "distinct B" "set A = set B"
    and "sorted (map h A)" "sorted (map h B)" "inj_on h (set A)"
  shows "A = B"
proof -
  have "map h A = map h B"
    using assms by (intro sorted_distinct_set_unique) (simp_all add: distinct_map)
  then show ?thesis
    using assms by (simp add: inj_on_map_eq_map [of h A B])
qed

lemma stable_sort_is_ranked:
  "sort_key (\<lambda>c. - int (count_list xs c)) (first_seen xs) = sort_key (rank_key xs) (remdups xs)"
proof (rule properties_for_sort_key)
  let ?ys = "sort_key (rank_key xs) (remdups xs)"
  let ?f = "\<lambda>c. - int (count_list xs c)"
  show "mset ?ys = mset (first_seen xs)"
    by (simp add: set_eq_iff_mset_eq_distinct [symmetric])
  have ranked: "sorted (map (\<lambda>c. (?f c, first_index xs c)) ?ys)"
    using sorted_sort_key [of "rank_key xs" "remdups xs"] by (simp add: rank_key_def [abs_def])
  show "sorted (map ?f ?ys)"
    using ranked by (rule sorted_fst_of_pairs)
  show "filter (\<lambda>x. ?f k = ?f x) ?ys = filter (\<lambda>x. ?f k = ?f x) (first_seen xs)" for k
  proof (rule same_order_unique [where h = "first_index xs"])
    show "distinct (filter (\<lambda>x. ?f k = ?f x) ?ys)" by simp
    show "distinct (filter (\<lambda>x. ?f k = ?f x) (first_seen xs))" by simp
    show "set (filter (\<lambda>x. ?f k = ?f x) ?ys) = set (filter (\<lambda>x. ?f k = ?f x) (first_seen xs))"
      by simp
    have "sorted (map (first_index xs) (filter (\<lambda>c. ?f c = ?f k) ?ys))"
      using ranked by (rule sorted_snd_of_pairs)
    then show "sorted (map (first_index xs) (filter (\<lambda>x. ?f k = ?f x) ?ys))"
      by (simp add: eq_commute)
    show "sorted (map (first_index xs) (filter (\<lambda>x. ?f k = ?f x) (first_seen xs)))"
      using first_seen_sorted by (rule sorted_filter)
    show "inj_on (first_index xs) (set (filter (\<lambda>x. ?f k = ?f x) ?ys))"
      by (rule inj_on_subset [OF first_index_inj]) auto
  qed
qed

lemma most_common_counted:
  "most_common n (counted (first_seen xs) xs) = top_mentioned n xs"
  by (simp add: most_common_def counted_def top_mentioned_def sort_key_map
      stable_sort_is_ranked take_map)

lemma top_coins_of_ranked:
  "list_all hashable xs \<Longrightarrow> top_coins_of xs = Inr (top_mentioned 5 xs)"
  by (cases "xs = []")
    (simp_all add: top_coins_of_def Counter_def Counter_counted most_common_counted
      top_mentioned_def)

lemma top_coins_of_returned:
  assumes "top_coins_of xs = Inr tops"
  shows "tops = top_mentioned 5 xs"
proof (cases "list_all hashable xs")
  case True
  then show ?thesis using assms by (simp add: top_coins_of_ranked)
next
  case False
  then have "xs \<noteq> []" by auto
  moreover have "Counter xs = Inl TypeError"
    using False by (simp add: Counter_def counter_update_error)
  ultimately show ?thesis using assms by (simp add: top_coins_of_def)
qed

section \<open>Reading the arguments\<close>

lemma str_strip_arg:
  "str_strip (dict_get a k (PStr [])) =
     (case arg_text a k of None \<Rightarrow> Inl AttributeError | Some t \<Rightarrow> Inr t)"
proof (cases "a k")
  case None
  then show ?thesis by (simp add: dict_get_def arg_text_def strip_def)
next
  case (Some v)
  then show ?thesis by (cases v) (simp_all add: dict_get_def arg_text_def)
qed

lemma strip_examples:
  "strip ''  '' = []" "strip '' Bitcoin rallies '' = ''Bitcoin rallies''" "strip ''ETF'' = ''ETF''"
  by (simp_all add: strip_def is_space_def)

section \<open>The metadata loop\<close>

lemma add_metadata_shape:
  assumes "add_metadata rq items i r = Inr r'"
  shows "r' = r(''item_index'' \<mapsto> PNum (of_nat i), ''analysis_id'' \<mapsto> PStr (rq @ ''_item_'' @ dec i)) \<or>
         (\<exists>v. r' = r(''item_index'' \<mapsto> PNum (of_nat i),
                    ''analysis_id'' \<mapsto> PStr (rq @ ''_item_'' @ dec i), ''source'' \<mapsto> v))"
proof (cases "i < length items")
  case False
  then show ?thesis using assms by (simp add: add_metadata_def Let_def)
next
  case True
  show ?thesis
  proof (cases "py_in ''source'' (items ! i)")
    case (Inl e)
    then show ?thesis using assms True by (simp add: add_metadata_def Let_def)
  next
    case (Inr b)
    show ?thesis
    proof (cases b)
      case False
      then show ?thesis using assms True Inr by (simp add: add_metadata_def Let_def)
    next
      case b: True
      show ?thesis
      proof (cases "py_getitem (items ! i) ''source''")
        case (Inl e)
        then show ?thesis using assms True Inr b by (simp add: add_metadata_def Let_def)
      next
        case v: (Inr v)
        have "r' = r(''item_index'' \<mapsto> PNum (of_nat i),
                    ''analysis_id'' \<mapsto> PStr (rq @ ''_item_'' @ dec i), ''source'' \<mapsto> v)"
          using assms True Inr b v by (simp add: add_metadata_def Let_def)
        then show ?thesis by blast
      qed
    qed
  qed
qed

lemma add_metadata_fields:
  assumes "add_metadata rq items i r = Inr r'"
  shows "r' ''item_index'' = Some (PNum (of_nat i))"
    and "k \<notin> metadata_keys \<Longrightarrow> r' k = r k"
proof -
  show "r' ''item_index'' = Some (PNum (of_nat i))"
    using add_metadata_shape [OF assms] by (elim disjE exE) simp_all
  show "r' k = r k" if "k \<notin> metadata_keys"
    using add_metadata_shape [OF assms] that
    by (elim disjE exE) (simp_all add: metadata_keys_def)
qed

lemma add_metadata_loop_fields:
  "add_metadata_loop rq items i rs = Inr rs' \<Longrightarrow>
     length rs' = length rs \<and>
     (\<forall>j<length rs. (rs' ! j) ''item_index'' = Some (PNum (of_nat (i + j))) \<and>
        (\<forall>k. k \<notin> metadata_keys \<longrightarrow> (rs' ! j) k = (rs ! j) k))"
proof (induction rs arbitrary: i rs')
  case Nil
  then show ?case by simp
next
  case (Cons r rs)
  from Cons.prems obtain r' rest where r': "add_metadata rq items i r = Inr r'"
    and rest: "add_metadata_loop rq items (i + 1) rs = Inr rest" and rs': "rs' = r' # rest"
    by (auto split: sum.splits)
  note IH = Cons.IH [OF rest]
  show ?case
  proof (intro conjI allI impI)
    show "length rs' = length (r # rs)" using IH rs' by simp
  next
    fix j assume j: "j < length (r # rs)"
    show "(rs' ! j) ''item_index'' = Some (PNum (of_nat (i + j)))"
      using j IH add_metadata_fields(1) [OF r'] rs' by (cases j) auto
  next
    fix j k assume j: "j < length (r # rs)" and k: "k \<notin> metadata_keys"
    show "(rs' ! j) k = ((r # rs) ! j) k"
      using j k IH add_metadata_fields(2) [OF r'] rs' by (cases j) auto
  qed
qed

lemma three_items_scored:
  "title_scorer (three_items ! 0) ''r1'' =
     Inr [''impact'' \<mapsto> PStr ''Neutral'', ''confidence'' \<mapsto> PNum 50]"
  "title_scorer (three_items ! 1) ''r1'' = Inl ''empty title''"
  "title_scorer (three_items ! 2) ''r1'' =
     Inr [''impact'' \<mapsto> PStr ''Neutral'', ''confidence'' \<mapsto> PNum 50]"
  by (simp_all add: three_items_def title_scorer_def strip_def is_space_def)

lemma three_items_run:
  "\<exists>d. fst (handle_batch_analysis (analyze_batch title_scorer) None some_float ''r1'' ''now''
           (PNum 1) [''news_items'' \<mapsto> PList three_items]) = Response_Result (PNum 1) (Some d)"
  by (simp add: handle_batch_analysis_def dict_get_def dict_get_none_def Let_def batch_body_def
      analyze_batch_def item_result_def title_scorer_def three_items_def strip_def is_space_def
      failed_result_def add_metadata_def generate_batch_summary_def summary_step_def
      count_impact_def count_confidence_def count_error_def acc0_def average_of_def
      top_coins_of_def some_float_def create_mcp_response_def)


section \<open>Searching for a keyword\<close>

lemma match_literal_iff:
  "match_literal kw b rest \<longleftrightarrow>
     (\<exists>mid post. rest = mid @ post \<and> same_ignoring_case mid kw \<and>
        word_before b mid \<noteq> word_after post)"
proof (induction kw b rest rule: match_literal.induct)
  case (1 before rest)
  show ?case by (simp add: same_ignoring_case_def word_before_def)
next
  case (2 k ks before)
  show ?case by (simp add: same_ignoring_case_def)
next
  case (3 k ks before c cs)
  have "(\<exists>mid post. c # cs = mid @ post \<and> same_ignoring_case mid (k # ks) \<and>
           word_before before mid \<noteq> word_after post) \<longleftrightarrow>
        (lower_char k = lower_char c \<and>
         (\<exists>mid' post. cs = mid' @ post \<and> same_ignoring_case mid' ks \<and>
           word_before (is_word_char c) mid' \<noteq> word_after post))"
    (is "?L \<longleftrightarrow> ?R")
  proof
    assume ?L
    then obtain mid post where m: "c # cs = mid @ post" "same_ignoring_case mid (k # ks)"
      "word_before before mid \<noteq> word_after post" by blast
    from m(2) obtain m' where mid: "mid = c # m'"
      using m(1) by (cases mid) (auto simp: same_ignoring_case_def)
    have "word_before before mid = word_before (is_word_char c) m'"
      by (simp add: mid word_before_def)
    with m mid show ?R by (auto simp: same_ignoring_case_def)
  next
    assume r: ?R
    then obtain m' post where m: "cs = m' @ post" "same_ignoring_case m' ks"
      "word_before (is_word_char c) m' \<noteq> word_after post" by blast
    have "word_before before (c # m') = word_before (is_word_char c) m'"
      by (simp add: word_before_def)
    with m r have "c # cs = (c # m') @ post \<and> same_ignoring_case (c # m') (k # ks) \<and>
           word_before before (c # m') \<noteq> word_after post"
      by (simp add: same_ignoring_case_def)
    then show ?L by blast
  qed
  with 3 show ?case by simp
qed

lemma search_from_iff:
  "search_from kw b rest \<longleftrightarrow>
     (\<exists>skip mid post. rest = skip @ mid @ post \<and> same_ignoring_case mid kw \<and>
        word_before b skip \<noteq> word_after (mid @ post) \<and>
        word_before b (skip @ mid) \<noteq> word_after post)"
proof (induction rest arbitrary: b)
  case Nil
  show ?case
    by (auto simp: match_here_def match_literal_iff word_before_def)
next
  case (Cons c cs)
  have here: "match_here kw b (c # cs) \<longleftrightarrow>
      (\<exists>mid post. c # cs = [] @ mid @ post \<and> same_ignoring_case mid kw \<and>
        word_before b [] \<noteq> word_after (mid @ post) \<and>
        word_before b ([] @ mid) \<noteq> word_after post)"
    by (auto simp: match_here_def match_literal_iff word_before_def)
  have later: "search_from kw (is_word_char c) cs \<longleftrightarrow>
      (\<exists>skip' mid post. c # cs = (c # skip') @ mid @ post \<and> same_ignoring_case mid kw \<and>
        word_before b (c # skip') \<noteq> word_after (mid @ post) \<and>
        word_before b ((c # skip') @ mid) \<noteq> word_after post)"
    unfolding Cons.IH by (simp add: word_before_def)
  show ?case (is "?L \<longleftrightarrow> ?R")
  proof
    assume ?L
    then show ?R unfolding search_from.simps here later by blast
  next
    assume ?R
    then obtain skip mid post where s: "c # cs = skip @ mid @ post" "same_ignoring_case mid kw"
      "word_before b skip \<noteq> word_after (mid @ post)"
      "word_before b (skip @ mid) \<noteq> word_after post" by blast
    show ?L
    proof (cases skip)
      case Nil
      with s have "match_here kw b (c # cs)" unfolding here by auto
      then show ?thesis by simp
    next
      case (Cons d skip')
      with s have "d = c" by simp
      with s Cons have "search_from kw (is_word_char c) cs" unfolding later by blast
      then show ?thesis by simp
    qed
  qed
qed

lemma re_search_word_iff: "re_search_word kw text \<longleftrightarrow> word_bounded_match kw text"
  by (simp add: re_search_word_def search_from_iff word_bounded_match_def boundary_between_def
      word_before_def)


lemma is_word_lower: "is_word_char (lower_char c) = is_word_char c"
proof (cases "is_upper c")
  case False
  then show ?thesis by (simp add: lower_char_def)
next
  case True
  define n where "n = (of_char c :: nat)"
  have u: "(65 \<le> n \<and> n \<le> 90) \<or> (192 \<le> n \<and> n \<le> 222 \<and> n \<noteq> 215)"
    using True by (simp add: n_def is_upper_def Let_def)
  have l: "lower_char c = char_of (n + 32)"
    using True by (simp add: lower_char_def n_def)
  have m: "(of_char (char_of (n + 32)) :: nat) = n + 32"
    using u by auto
  have "is_word_char c"
    unfolding is_word_char_def Let_def n_def [symmetric] using u by arith
  moreover have "is_word_char (char_of (n + 32))"
    unfolding is_word_char_def Let_def m using u by arith
  ultimately show ?thesis by (simp add: l)
qed

lemma detected_keywords_eq:
  "detected_keywords lexicon text w = report w (present_in text lexicon)"
  by (induction lexicon) (auto simp: report_def present_in_def re_search_word_iff)

lemma same_case_ends:
  assumes "same_ignoring_case mid kw" "kw \<noteq> []"
  shows "mid \<noteq> []" "is_word_char (hd mid) = is_word_char (hd kw)"
    "is_word_char (last mid) = is_word_char (last kw)"
proof -
  from assms show ne: "mid \<noteq> []" by (auto simp: same_ignoring_case_def)
  have m: "map lower_char mid = map lower_char kw" using assms by (simp add: same_ignoring_case_def)
  have "hd (map lower_char mid) = hd (map lower_char kw)" using m by simp
  then have "lower_char (hd mid) = lower_char (hd kw)"
    using ne assms(2) by (simp add: hd_map)
  then have "is_word_char (lower_char (hd mid)) = is_word_char (lower_char (hd kw))" by simp
  then show "is_word_char (hd mid) = is_word_char (hd kw)" by (simp only: is_word_lower)
  have "last (map lower_char mid) = last (map lower_char kw)" using m by simp
  then have "lower_char (last mid) = lower_char (last kw)"
    using ne assms(2) by (simp add: last_map)
  then have "is_word_char (lower_char (last mid)) = is_word_char (lower_char (last kw))" by simp
  then show "is_word_char (last mid) = is_word_char (last kw)" by (simp only: is_word_lower)
qed

lemma embedded_not_matched:
  assumes "kw \<noteq> []" "is_word_char (hd kw)" "is_word_char (last kw)" "embedded_only kw text"
  shows "\<not> word_bounded_match kw text"
proof
  assume "word_bounded_match kw text"
  then obtain pre mid post where t: "text = pre @ mid @ post" "same_ignoring_case mid kw"
    and b1: "boundary_between pre (mid @ post)" and b2: "boundary_between (pre @ mid) post"
    unfolding word_bounded_match_def by blast
  note e = same_case_ends [OF t(2) assms(1)]
  have "word_after (mid @ post)" using e assms(2) by (cases mid) (auto simp: word_after_def)
  with b1 have "\<not> word_before False pre" by (simp add: boundary_between_def)
  moreover have "word_before False (pre @ mid)" using e assms(3) by (simp add: word_before_def)
  with b2 have "\<not> word_after post" by (simp add: boundary_between_def)
  ultimately show False using assms(4) t unfolding embedded_only_def by blast
qed


lemma present_in_search:
  "present_in text lexicon = filter (\<lambda>(keyword, weight). re_search_word keyword text) lexicon"
  by (simp add: present_in_def re_search_word_iff)

lemma of_char_lower:
  "(of_char (lower_char c) :: nat) = (if is_upper c then of_char c + 32 else of_char c)"
proof (cases "is_upper c")
  case False
  then show ?thesis by (simp add: lower_char_def)
next
  case True
  then have "(of_char c :: nat) \<le> 222" by (auto simp: is_upper_def Let_def)
  then show ?thesis using True by (simp add: lower_char_def)
qed

lemma lower_char_eq_iff:
  "lower_char a = lower_char b \<longleftrightarrow>
     (if is_upper a then of_char a + 32 else (of_char a :: nat)) =
     (if is_upper b then of_char b + 32 else of_char b)"
proof -
  have "lower_char a = lower_char b \<longleftrightarrow>
      (of_char (lower_char a) :: nat) = of_char (lower_char b)"
    by simp
  then show ?thesis by (simp only: of_char_lower)
qed

lemma demo_search:
  "re_search_word ''surge'' ''Urban prices Surge''"
  "\<not> re_search_word ''rally'' ''Urban prices Surge''"
  "\<not> re_search_word ''ban'' ''Urban prices Surge''"
  "\<not> re_search_word ''hack'' ''Urban prices Surge''"
  by (simp_all add: re_search_word_def match_here_def word_after_def is_word_char_def
      lower_char_eq_iff is_upper_def)


lemma not_matched_embedded:
  assumes "kw \<noteq> []" "is_word_char (hd kw)" "is_word_char (last kw)"
    and "\<not> word_bounded_match kw text"
  shows "embedded_only kw text"
  unfolding embedded_only_def
proof (intro allI impI)
  fix pre mid post
  assume a: "text = pre @ mid @ post \<and> same_ignoring_case mid kw"
  then have s: "same_ignoring_case mid kw" by simp
  note e = same_case_ends [OF s assms(1)]
  show "word_before False pre \<or> word_after post"
  proof (rule ccontr)
    assume n: "\<not> (word_before False pre \<or> word_after post)"
    have "word_after (mid @ post)" using e assms(2) by (cases mid) (auto simp: word_after_def)
    with n have b1: "boundary_between pre (mid @ post)" by (simp add: boundary_between_def)
    have "word_before False (pre @ mid)" using e assms(3) by (simp add: word_before_def)
    with n have b2: "boundary_between (pre @ mid) post" by (simp add: boundary_between_def)
    from a b1 b2 have "word_bounded_match kw text" unfolding word_bounded_match_def by blast
    with assms(4) show False by simp
  qed
qed

section \<open>Rounding to the nearest double\<close>

lemma bit_length_bounds:
  "0 < n \<Longrightarrow> 2 ^ (bit_length n - 1) \<le> n \<and> n < 2 ^ bit_length n"
proof (induction n rule: bit_length.induct)
  case (1 n)
  have bl: "bit_length n = Suc (bit_length (n div 2))"
    using 1(2) by (subst bit_length.simps) simp
  show ?case
  proof (cases "n div 2 = 0")
    case True
    then have "n = 1" using 1(2) by presburger
    moreover have "bit_length 0 = 0" by (subst bit_length.simps) simp
    ultimately show ?thesis using bl by simp
  next
    case False
    then have ih: "2 ^ (bit_length (n div 2) - 1) \<le> n div 2" "n div 2 < 2 ^ bit_length (n div 2)"
      using 1 by simp_all
    have pos: "0 < bit_length (n div 2)"
      using False by (subst bit_length.simps) simp
    then have "(2::nat) ^ bit_length (n div 2) = 2 * 2 ^ (bit_length (n div 2) - 1)"
      by (cases "bit_length (n div 2)") simp_all
    then have lo: "(2::nat) ^ bit_length (n div 2) \<le> n" using ih(1) by presburger
    have hi: "n < 2 * 2 ^ bit_length (n div 2)" using ih(2) by presburger
    show ?thesis using lo hi by (simp add: bl)
  qed
qed

lemma exponent_bounds:
  assumes "0 < x"
  shows "2 powi exponent x \<le> x \<and> x < 2 powi (exponent x + 1)"
proof (cases "1 \<le> x")
  case True
  define f where "f = nat \<lfloor>x\<rfloor>"
  have f1: "0 < f" using True by (simp add: f_def)
  have "0 \<le> \<lfloor>x\<rfloor>" using True by simp
  then have "(of_nat f :: rat) = of_int \<lfloor>x\<rfloor>" unfolding f_def by simp
  then have fx: "of_nat f \<le> x" "x < of_nat f + 1" by linarith+
  have e: "exponent x = int (bit_length f) - 1" using True by (simp add: exponent_def f_def)
  note b = bit_length_bounds [OF f1]
  have bp: "0 < bit_length f" using f1 by (subst bit_length.simps) simp
  have "(2::rat) powi exponent x = 2 ^ (bit_length f - 1)"
    using bp by (simp add: e power_int_def nat_diff_distrib')
  also have "\<dots> = of_nat (2 ^ (bit_length f - 1))" by simp
  also have "\<dots> \<le> of_nat f" using b unfolding of_nat_le_iff by blast
  finally have lo: "2 powi exponent x \<le> x" using fx(1) by simp
  have "f + 1 \<le> 2 ^ bit_length f" using b by simp
  then have "(of_nat (f + 1) :: rat) \<le> of_nat (2 ^ bit_length f)" unfolding of_nat_le_iff .
  then have "x < 2 ^ bit_length f" using fx(2) by simp
  then have hi: "x < 2 powi (exponent x + 1)" by (simp add: e)
  show ?thesis using lo hi by blast
next
  case False
  define c where "c = \<lceil>1 / x\<rceil>"
  define t where "t = bit_length (nat (c - 1))"
  have y1: "1 < 1 / x" using False assms by simp
  have c2: "2 \<le> c" using y1 unfolding c_def by (simp add: le_ceiling_iff)
  have cy: "1 / x \<le> of_int c" "of_int c - 1 < 1 / x"
    unfolding c_def by (simp_all add: ceiling_correct) 
  have n1: "0 < nat (c - 1)" using c2 by simp
  note b = bit_length_bounds [OF n1, folded t_def]
  have e: "exponent x = - int t" using False by (simp add: exponent_def c_def t_def)
  have tp: "0 < t" unfolding t_def using n1 by (subst bit_length.simps) simp
  have "int (nat (c - 1)) < int (2 ^ t)" using b unfolding of_nat_less_iff by blast
  then have "c \<le> 2 ^ t" using c2 by simp
  then have "(of_int c :: rat) \<le> 2 ^ t" by simp
  then have "1 / x \<le> 2 ^ t" using cy(1) by linarith
  then have "1 \<le> 2 ^ t * x" using assms by (simp add: field_simps)
  then have lo: "2 powi exponent x \<le> x"
    by (simp add: e power_int_minus field_simps)
  have "int (2 ^ (t - 1)) \<le> int (nat (c - 1))" using b unfolding of_nat_le_iff by blast
  then have "2 ^ (t - 1) \<le> c - 1" using c2 by simp
  then have "(of_int (2 ^ (t - 1)) :: rat) \<le> of_int (c - 1)" by (simp only: of_int_le_iff)
  then have "(2 ^ (t - 1) :: rat) \<le> of_int c - 1"
    by (simp only: of_int_power of_int_numeral of_int_diff of_int_1)
  then have "2 ^ (t - 1) < 1 / x" using cy(2) by linarith
  then have "2 ^ (t - 1) * x < 1" using assms by (simp add: field_simps)
  moreover have "exponent x + 1 = - int (t - 1)" using tp by (simp add: e)
  ultimately have hi: "x < 2 powi (exponent x + 1)"
    by (simp add: power_int_minus field_simps)
  show ?thesis using lo hi by blast
qed

lemma round_half_even_near: "\<bar>of_int (round_half_even y) - y\<bar> \<le> 1 / 2"
proof -
  have "of_int \<lfloor>y\<rfloor> \<le> y" "y < of_int \<lfloor>y\<rfloor> + 1" by linarith+
  then show ?thesis unfolding round_half_even_def Let_def by (auto simp: abs_le_iff)
qed

lemma round_half_even_unique:
  assumes "\<bar>y - of_int j\<bar> < 1 / 2"
  shows "round_half_even y = j"
proof -
  have "\<bar>(of_int (round_half_even y) :: rat) - of_int j\<bar> < 1"
    using assms round_half_even_near [of y] by linarith
  then have "\<bar>(of_int (round_half_even y - j) :: rat)\<bar> < 1" by simp
  then have "(of_int \<bar>round_half_even y - j\<bar> :: rat) < of_int 1"
    by (simp only: of_int_abs of_int_1)
  then have "\<bar>round_half_even y - j\<bar> < 1" by (simp only: of_int_less_iff)
  then show ?thesis by simp
qed

lemma round_half_even_between:
  assumes "of_int j < y" "y < of_int j + 1"
  shows "round_half_even y = j \<or> round_half_even y = j + 1"
proof -
  have "\<lfloor>y\<rfloor> = j" using assms by (simp add: floor_unique)
  then show ?thesis unfolding round_half_even_def Let_def by auto
qed

lemma nearest_double_error:
  assumes "2 powi (- 1022) \<le> \<bar>x\<bar>"
  shows "\<bar>nearest_double x - x\<bar> \<le> \<bar>x\<bar> / 2 ^ 53"
proof -
  define a where "a = \<bar>x\<bar>"
  have "(0::rat) < 2 powi (- 1022)" by simp
  then have a0: "0 < a" using assms unfolding a_def by linarith
  then have x0: "x \<noteq> 0" unfolding a_def by auto
  define e where "e = exponent a"
  note eb = exponent_bounds [OF a0, folded e_def]
  have "(2::rat) powi (- 1022) < 2 powi (e + 1)" using eb assms unfolding a_def by linarith
  then have "- 1022 < e + 1"
    using power_int_increasing [of "e + 1" "- 1022" "2::rat"] by (cases "- 1022 < e + 1") auto
  then have mx: "max e (- 1022) = e" by simp
  define u :: rat where "u = 2 powi (e - 52)"
  have u0: "0 < u" unfolding u_def by simp
  define q where "q = round_half_even (a / u)"
  have mx': "max (exponent \<bar>x\<bar>) (- 1022) = exponent \<bar>x\<bar>"
    using mx unfolding e_def a_def .
  have nd: "nearest_double x = sgn x * (of_int q * u)"
    using x0 unfolding nearest_double_def Let_def mx' q_def u_def e_def a_def by simp
  have "x = sgn x * a" unfolding a_def by (simp add: sgn_mult_abs)
  then have "nearest_double x - x = sgn x * (of_int q * u - a)"
    unfolding nd by (simp add: algebra_simps)
  then have "\<bar>nearest_double x - x\<bar> = \<bar>of_int q * u - a\<bar>"
    using x0 by (simp add: abs_mult abs_sgn_eq)
  also have "of_int q * u - a = (of_int q - a / u) * u" using u0 by (simp add: field_simps)
  also have "\<bar>\<dots>\<bar> = \<bar>of_int q - a / u\<bar> * u" using u0 by (simp add: abs_mult)
  also have "\<dots> \<le> 1 / 2 * u"
    using round_half_even_near [of "a / u"] u0 unfolding q_def
    by (intro mult_right_mono) simp_all
  also have "1 / 2 * u = 2 powi e / 2 ^ 53"
    unfolding u_def by (simp add: power_int_diff)
  also have "\<dots> \<le> a / 2 ^ 53" using eb by (simp add: divide_right_mono)
  finally show ?thesis unfolding a_def .
qed

lemma quotient_error:
  fixes S :: int and n :: nat
  assumes S0: "0 \<le> S" and n0: "0 < n" and Sn: "S \<le> 100 * int n" and nb: "n \<le> 2 ^ 40"
  defines "m \<equiv> of_int S / of_nat n"
  shows "0 \<le> m" "m \<le> 100" "\<bar>nearest_double m - m\<bar> \<le> m / 2 ^ 53"
proof -
  define N :: rat where "N = of_nat n"
  have N0: "0 < N" using n0 by (simp add: N_def)
  have "(of_nat n :: rat) \<le> of_nat (2 ^ 40)" using nb unfolding of_nat_le_iff .
  then have Nb: "N \<le> 2 ^ 40" by (simp add: N_def)
  have m: "m = of_int S / N" by (simp add: m_def N_def)
  show m0: "0 \<le> m" using S0 N0 by (simp add: m)
  have "(of_int S :: rat) \<le> of_int (100 * int n)" using Sn unfolding of_int_le_iff .
  then have "of_int S \<le> 100 * N" by (simp add: N_def)
  then show "m \<le> 100" using N0 by (simp add: m field_simps)
  show "\<bar>nearest_double m - m\<bar> \<le> m / 2 ^ 53"
  proof (cases "S = 0")
    case True
    then show ?thesis by (simp add: m nearest_double_def)
  next
    case False
    then have "1 \<le> S" using S0 by simp
    then have "(1::rat) \<le> of_int S" by simp
    then have "1 / N \<le> m" using N0 by (simp add: m field_simps)
    moreover have "1 / 2 ^ 40 \<le> 1 / N" using N0 Nb by (simp add: field_simps)
    moreover have "(2::rat) powi (- 1022) \<le> 1 / 2 ^ 40" by (simp add: power_int_minus field_simps)
    ultimately have "2 powi (- 1022) \<le> \<bar>m\<bar>" by linarith
    from nearest_double_error [OF this] show ?thesis using m0 by simp
  qed
qed

lemma halfway_iff:
  "halfway m \<longleftrightarrow> (\<exists>j. 10 * m = of_int j + 1 / 2)"
proof
  assume "halfway m"
  then have "10 * m = of_int \<lfloor>10 * m\<rfloor> + 1 / 2" unfolding halfway_def by linarith
  then show "\<exists>j. 10 * m = of_int j + 1 / 2" by blast
next
  assume "\<exists>j. 10 * m = of_int j + 1 / 2"
  then obtain j where j: "10 * m = of_int j + 1 / 2" by blast
  then have "\<lfloor>10 * m\<rfloor> = j" by (simp add: floor_unique)
  then show "halfway m" unfolding halfway_def using j by simp
qed

lemma mean_rounding:
  fixes S :: int and n :: nat
  assumes S0: "0 \<le> S" and n0: "0 < n" and Sn: "S \<le> 100 * int n" and nb: "n \<le> 2 ^ 40"
  defines "m \<equiv> of_int S / of_nat n"
  shows "true_divide S (int n) = Inr (nearest_double m)"
    and "\<not> halfway m \<Longrightarrow>
           round_half_even (10 * nearest_double m) = round_half_even (10 * m)"
    and "halfway m \<Longrightarrow>
           round_half_even (10 * nearest_double m) = \<lfloor>10 * m\<rfloor> \<or>
           round_half_even (10 * nearest_double m) = \<lfloor>10 * m\<rfloor> + 1"
proof -
  define x where "x = nearest_double m"
  define N :: rat where "N = of_nat n"
  have N0: "0 < N" using n0 by (simp add: N_def)
  have m: "m = of_int S / N" by (simp add: m_def N_def)
  note q = quotient_error [OF S0 n0 Sn nb, folded m_def, folded x_def]
  have small: "m / 2 ^ 53 < 1 / 20" using q(1,2) by simp
  have d: "\<bar>10 * x - 10 * m\<bar> \<le> 10 * (m / 2 ^ 53)" using q(3) by linarith
  have "\<bar>x\<bar> \<le> 200" using q small by linarith
  moreover have "(200::rat) < 2 powi 1024" by simp
  ultimately have "\<not> 2 powi 1024 \<le> \<bar>x\<bar>" by linarith
  then show "true_divide S (int n) = Inr (nearest_double m)"
    using n0 by (simp add: true_divide_def Let_def m_def x_def)
  {
    assume nh: "\<not> halfway m"
    define j where "j = round_half_even (10 * m)"
    have near: "\<bar>of_int j - 10 * m\<bar> \<le> 1 / 2"
      unfolding j_def by (rule round_half_even_near)
    have "10 * m \<noteq> of_int (j - 1) + 1 / 2" "10 * m \<noteq> of_int j + 1 / 2"
      using nh unfolding halfway_iff by blast+
    then have strict: "\<bar>of_int j - 10 * m\<bar> < 1 / 2" using near by (simp add: abs_if split: if_splits)
    define z where "z = 20 * S - 2 * j * int n"
    have zeq: "of_int j - 10 * m = - of_int z / (2 * N)"
      using N0 by (simp add: z_def m N_def field_simps)
    have "\<bar>of_int z :: rat\<bar> < N"
      using strict N0 unfolding zeq by (simp add: abs_mult field_simps abs_if split: if_splits)
    then have "(of_int \<bar>z\<bar> :: rat) < of_int (int n)"
      by (simp only: N_def of_int_abs of_int_of_nat_eq)
    then have "\<bar>z\<bar> < int n" by (simp only: of_int_less_iff)
    then have "\<bar>z\<bar> \<le> int n - 1" by simp
    then have "(of_int \<bar>z\<bar> :: rat) \<le> of_int (int n - 1)" by (simp only: of_int_le_iff)
    then have "\<bar>of_int z :: rat\<bar> \<le> N - 1"
      by (simp only: N_def of_int_abs of_int_of_nat_eq of_int_diff of_int_1)
    then have gap: "\<bar>of_int j - 10 * m\<bar> \<le> 1 / 2 - 1 / (2 * N)"
      using N0 unfolding zeq by (simp add: abs_mult field_simps abs_if split: if_splits)
    have "(of_int S :: rat) \<le> 100 * N"
      using q(2) N0 by (simp add: m field_simps)
    moreover have "N \<le> 2 ^ 40"
    proof -
      have "(of_nat n :: rat) \<le> of_nat (2 ^ 40)" using nb unfolding of_nat_le_iff .
      then show ?thesis by (simp add: N_def)
    qed
    ultimately have "20 * (of_int S :: rat) < 2 ^ 53" by simp
    then have "10 * (m / 2 ^ 53) < 1 / (2 * N)"
      using N0 by (simp add: m field_simps)
    then have "\<bar>10 * x - of_int j\<bar> < 1 / 2" using d gap by linarith
    then have "round_half_even (10 * x) = j" by (rule round_half_even_unique)
    then show "round_half_even (10 * nearest_double m) = round_half_even (10 * m)"
      by (simp add: x_def j_def)
  }
  {
    assume h: "halfway m"
    define f where "f = \<lfloor>10 * m\<rfloor>"
    have "10 * m = of_int f + 1 / 2" using h unfolding halfway_def f_def by linarith
    then have "of_int f < 10 * x" "10 * x < of_int f + 1" using d small by linarith+
    then have "round_half_even (10 * x) = f \<or> round_half_even (10 * x) = f + 1"
      by (rule round_half_even_between)
    then show "round_half_even (10 * nearest_double m) = \<lfloor>10 * m\<rfloor> \<or>
           round_half_even (10 * nearest_double m) = \<lfloor>10 * m\<rfloor> + 1"
      by (simp add: x_def f_def)
  }
qed

lemma sum_list_percent:
  "\<forall>c\<in>set cs. 0 \<le> c \<and> c \<le> (100::int) \<Longrightarrow>
     0 \<le> sum_list cs \<and> sum_list cs \<le> 100 * int (length cs)"
  by (induction cs) auto

lemma whole_percent_value:
  "whole_percent r \<Longrightarrow>
     number_value (confidence_of r) = of_int (int_confidence r) \<and>
     0 \<le> int_confidence r \<and> int_confidence r \<le> 100"
  unfolding whole_percent_def int_confidence_def
  by (cases "confidence_of r") (auto simp: floor_le_iff)

lemma mean_confidence_ints:
  assumes "list_all whole_percent rs"
  shows "mean_confidence rs = of_int (sum_list (map int_confidence rs)) / of_nat (length rs)"
proof -
  have "sum_list (map (\<lambda>r. number_value (confidence_of r)) rs) =
      of_int (sum_list (map int_confidence rs))"
    using assms by (induction rs) (simp_all add: whole_percent_value)
  then show ?thesis by (simp add: mean_confidence_def)
qed

lemma round_mean_of_percent:
  assumes wp: "list_all whole_percent rs" and ne: "rs \<noteq> []" and len: "length rs \<le> 2 ^ 40"
  shows "round_mean_of_ints (map int_confidence rs) =
           Inr (one_decimal (round_half_even (10 * nearest_double (mean_confidence rs))))"
    and "\<not> halfway (mean_confidence rs) \<Longrightarrow>
           round_half_even (10 * nearest_double (mean_confidence rs)) =
           round_half_even (10 * mean_confidence rs)"
    and "halfway (mean_confidence rs) \<Longrightarrow>
           round_half_even (10 * nearest_double (mean_confidence rs)) = \<lfloor>10 * mean_confidence rs\<rfloor> \<or>
           round_half_even (10 * nearest_double (mean_confidence rs)) = \<lfloor>10 * mean_confidence rs\<rfloor> + 1"
proof -
  define cs where "cs = map int_confidence rs"
  have "\<forall>c\<in>set cs. 0 \<le> c \<and> c \<le> 100"
    using wp by (auto simp: cs_def list_all_iff whole_percent_value)
  from sum_list_percent [OF this]
  have S: "0 \<le> sum_list cs" "sum_list cs \<le> 100 * int (length cs)" by blast+
  have n: "0 < length cs" "length cs \<le> 2 ^ 40" using ne len by (simp_all add: cs_def)
  have m: "mean_confidence rs = of_int (sum_list cs) / of_nat (length cs)"
    using mean_confidence_ints [OF wp] by (simp add: cs_def)
  note R = mean_rounding [OF S(1) n(1) S(2) n(2), folded m]
  show "round_mean_of_ints (map int_confidence rs) =
           Inr (one_decimal (round_half_even (10 * nearest_double (mean_confidence rs))))"
    using R(1) by (simp add: round_mean_of_ints_def round_one_decimal_def one_decimal_def cs_def)
  show "\<not> halfway (mean_confidence rs) \<Longrightarrow>
           round_half_even (10 * nearest_double (mean_confidence rs)) =
           round_half_even (10 * mean_confidence rs)"
    by (rule R(2))
  show "halfway (mean_confidence rs) \<Longrightarrow>
           round_half_even (10 * nearest_double (mean_confidence rs)) = \<lfloor>10 * mean_confidence rs\<rfloor> \<or>
           round_half_even (10 * nearest_double (mean_confidence rs)) = \<lfloor>10 * mean_confidence rs\<rfloor> + 1"
    by (rule R(3))
qed

section \<open>The summary of no results\<close>

text \<open>
  C3. Applied to the empty sequence of results, the batch summary returns a summary (it
  raises nothing, whatever the float arithmetic would do) whose six counts are zero,
  whose average confidence is the literal 0.0 and whose list of top coins is empty.
\<close>

theorem summary_of_empty:
  "generate_batch_summary round_mean [] =
     Inr \<lparr>positive_count = 0, negative_count = 0, neutral_count = 0,
          high_confidence_count = 0, low_confidence_count = 0, error_count = 0,
          avg_confidence = Float_Zero, top_affected_coins = []\<rparr>"
  by (simp add: generate_batch_summary_def acc0_def average_of_def top_coins_of_def)


section \<open>The impact buckets\<close>

text \<open>
  C4, as amended. Whenever the summary is returned, whatever the impact fields of the
  results hold (also nothing), its positive, negative and neutral counts add up to the
  number of results. It is returned for every sequence of results in which each
  confidence that is present is a number and each \<^verbatim>\<open>affected_coins\<close> that is present
  is an iterable of hashable values, provided the float arithmetic of the mean raises
  nothing. A result whose confidence is present and not a number, or whose
  \<^verbatim>\<open>affected_coins\<close> is present and not iterable, makes the summary raise
  \<^verbatim>\<open>TypeError\<close>, so that no summary exists.
\<close>

theorem impact_counts_add_up:
  "(summarisable round_mean results \<longrightarrow>
      (\<exists>s. generate_batch_summary round_mean results = Inr s)) \<and>
   (\<forall>s. generate_batch_summary round_mean results = Inr s \<longrightarrow>
      positive_count s + negative_count s + neutral_count s = length results) \<and>
   (\<not> list_all readable results \<longrightarrow>
      generate_batch_summary round_mean results = Inl TypeError)"
proof (intro conjI allI impI)
  assume "summarisable round_mean results"
  then show "\<exists>s. generate_batch_summary round_mean results = Inr s"
    by (rule summary_returns)
next
  fix s
  assume s: "generate_batch_summary round_mean results = Inr s"
  show "positive_count s + negative_count s + neutral_count s = length results"
    unfolding summary_fields(1-3) [OF s] by (rule three_way_split) simp
next
  assume "\<not> list_all readable results"
  then have "summary_loop acc0 results = Inl TypeError" by (simp add: loop_error)
  then show "generate_batch_summary round_mean results = Inl TypeError"
    by (simp add: generate_batch_summary_def)
qed

theorem impact_counts_add_up_witness:
  "summarisable some_float
     [[''impact'' \<mapsto> PStr ''Positive'', ''confidence'' \<mapsto> PNum 80,
       ''affected_coins'' \<mapsto> PList [PStr ''BTC'']],
      [''impact'' \<mapsto> PNum 7],
      Map.empty] \<and>
   (\<exists>s. generate_batch_summary some_float
     [[''impact'' \<mapsto> PStr ''Positive'', ''confidence'' \<mapsto> PNum 80,
       ''affected_coins'' \<mapsto> PList [PStr ''BTC'']],
      [''impact'' \<mapsto> PNum 7],
      Map.empty] = Inr s \<and>
      positive_count s + negative_count s + neutral_count s = 3) \<and>
   \<not> list_all readable [[''confidence'' \<mapsto> PStr ''high'']] \<and>
   generate_batch_summary some_float [[''confidence'' \<mapsto> PStr ''high'']] = Inl TypeError"
proof -
  let ?rs = "[[''impact'' \<mapsto> PStr ''Positive'', ''confidence'' \<mapsto> PNum 80,
       ''affected_coins'' \<mapsto> PList [PStr ''BTC'']],
      [''impact'' \<mapsto> PNum 7],
      Map.empty]"
  have h: "summarisable some_float ?rs"
    by (simp add: summarisable_def readable_def coins_of_def dict_get_def mean_defined_def
        some_float_def)
  have n: "\<not> list_all readable [[''confidence'' \<mapsto> PStr ''high'']]"
    by (simp add: readable_def)
  have l: "length ?rs = 3" by simp
  note T = impact_counts_add_up [of some_float ?rs]
  from T h obtain s where s: "generate_batch_summary some_float ?rs = Inr s" by blast
  with T have "positive_count s + negative_count s + neutral_count s = 3"
    unfolding l by blast
  with s h n impact_counts_add_up [of some_float "[[''confidence'' \<mapsto> PStr ''high'']]"]
  show ?thesis by blast
qed

theorem impact_counts_counterexample:
  "generate_batch_summary some_float
     [[''impact'' \<mapsto> PStr ''Positive'', ''confidence'' \<mapsto> PStr ''high'']] = Inl TypeError"
  by (simp add: generate_batch_summary_def summary_step_def dict_get_def Let_def)

section \<open>The confidence buckets\<close>

text \<open>
  C8. Whenever the summary is returned, it has counted a result as high-confidence
  exactly when its confidence (0 when the field is missing) is strictly greater than 75
  and as low-confidence otherwise, so the two counts add up to the number of results. It
  is returned for every sequence of results it can read.
\<close>

theorem confidence_counts:
  "(summarisable round_mean results \<longrightarrow>
      (\<exists>s. generate_batch_summary round_mean results = Inr s)) \<and>
   (\<forall>s. generate_batch_summary round_mean results = Inr s \<longrightarrow>
      high_confidence_count s = length (filter is_high results) \<and>
      low_confidence_count s = length (filter (\<lambda>r. \<not> is_high r) results) \<and>
      high_confidence_count s + low_confidence_count s = length results)"
proof (intro conjI allI impI)
  assume "summarisable round_mean results"
  then show "\<exists>s. generate_batch_summary round_mean results = Inr s"
    by (rule summary_returns)
next
  fix s
  assume s: "generate_batch_summary round_mean results = Inr s"
  show "high_confidence_count s = length (filter is_high results)"
    by (rule summary_fields(4) [OF s])
  show "low_confidence_count s = length (filter (\<lambda>r. \<not> is_high r) results)"
    by (rule summary_fields(5) [OF s])
  show "high_confidence_count s + low_confidence_count s = length results"
    unfolding summary_fields(4,5) [OF s] by (rule sum_length_filter_compl)
qed

theorem confidence_counts_witness:
  "summarisable some_float
     [[''confidence'' \<mapsto> PNum 76], [''confidence'' \<mapsto> PNum 75], Map.empty,
      [''confidence'' \<mapsto> PNum (151 / 2)]] \<and>
   (\<exists>s. generate_batch_summary some_float
     [[''confidence'' \<mapsto> PNum 76], [''confidence'' \<mapsto> PNum 75], Map.empty,
      [''confidence'' \<mapsto> PNum (151 / 2)]] = Inr s \<and>
      high_confidence_count s = 2 \<and> low_confidence_count s = 2)"
proof -
  let ?rs = "[[''confidence'' \<mapsto> PNum 76], [''confidence'' \<mapsto> PNum 75], Map.empty,
      [''confidence'' \<mapsto> PNum (151 / 2)]]"
  have h: "summarisable some_float ?rs"
    by (simp add: summarisable_def readable_def coins_of_def dict_get_def mean_defined_def
        some_float_def)
  have c: "length (filter is_high ?rs) = 2" "length (filter (\<lambda>r. \<not> is_high r) ?rs) = 2"
    by (simp_all add: is_high_def confidence_of_def dict_get_def)
  note T = confidence_counts [of some_float ?rs]
  from T h obtain s where s: "generate_batch_summary some_float ?rs = Inr s" by blast
  with T have "high_confidence_count s = 2 \<and> low_confidence_count s = 2"
    unfolding c by blast
  with s h show ?thesis by blast
qed

section \<open>The average confidence\<close>

text \<open>
  C9, as amended. Let the confidences of the results be ints from 0 to 100, a missing one
  being 0, let there be at least one result and at most \<open>2\<close> to the power 40, and let the
  float arithmetic be Python's on these ints. Then the summary is returned whenever the
  results can be read, and its average confidence is the float written with one decimal
  that \<^verbatim>\<open>round\<close> picks for the double nearest to the mean. When the mean does not lie
  exactly halfway between two values of one decimal, this is the mean rounded to one
  decimal place. When it does, it is one of the two neighbours: \<^verbatim>\<open>round\<close> decides on
  the double nearest to the mean, and takes the even neighbour when that double is the
  mean itself.
\<close>

theorem avg_confidence_of_ints:
  "list_all whole_percent results \<and> results \<noteq> [] \<and> length results \<le> 2 ^ 40 \<and>
   round_mean (map confidence_of results) = round_mean_of_ints (map int_confidence results) \<longrightarrow>
     (list_all readable results \<and> list_all hashable (coin_mentions results) \<longrightarrow>
        (\<exists>s. generate_batch_summary round_mean results = Inr s)) \<and>
     (\<forall>s. generate_batch_summary round_mean results = Inr s \<longrightarrow>
        avg_confidence s =
          Rounded (one_decimal (round_half_even (10 * nearest_double (mean_confidence results)))) \<and>
        (\<not> halfway (mean_confidence results) \<longrightarrow>
           avg_confidence s =
             Rounded (one_decimal (round_half_even (10 * mean_confidence results)))) \<and>
        (halfway (mean_confidence results) \<longrightarrow>
           avg_confidence s = Rounded (one_decimal \<lfloor>10 * mean_confidence results\<rfloor>) \<or>
           avg_confidence s = Rounded (one_decimal (\<lfloor>10 * mean_confidence results\<rfloor> + 1))))"
proof (intro impI, elim conjE)
  assume wp: "list_all whole_percent results" and ne: "results \<noteq> []"
    and len: "length results \<le> 2 ^ 40"
    and py: "round_mean (map confidence_of results) =
               round_mean_of_ints (map int_confidence results)"
  note R = round_mean_of_percent [OF wp ne len]
  have rm: "round_mean (map confidence_of results) =
      Inr (one_decimal (round_half_even (10 * nearest_double (mean_confidence results))))"
    unfolding py by (rule R(1))
  show "(list_all readable results \<and> list_all hashable (coin_mentions results) \<longrightarrow>
        (\<exists>s. generate_batch_summary round_mean results = Inr s)) \<and>
     (\<forall>s. generate_batch_summary round_mean results = Inr s \<longrightarrow>
        avg_confidence s =
          Rounded (one_decimal (round_half_even (10 * nearest_double (mean_confidence results)))) \<and>
        (\<not> halfway (mean_confidence results) \<longrightarrow>
           avg_confidence s =
             Rounded (one_decimal (round_half_even (10 * mean_confidence results)))) \<and>
        (halfway (mean_confidence results) \<longrightarrow>
           avg_confidence s = Rounded (one_decimal \<lfloor>10 * mean_confidence results\<rfloor>) \<or>
           avg_confidence s = Rounded (one_decimal (\<lfloor>10 * mean_confidence results\<rfloor> + 1))))"
  proof (intro conjI allI impI)
    assume "list_all readable results \<and> list_all hashable (coin_mentions results)"
    then have "summarisable round_mean results"
      by (simp add: summarisable_def coin_mentions_def mean_defined_def rm)
    then show "\<exists>s. generate_batch_summary round_mean results = Inr s"
      by (rule summary_returns)
  next
    fix s
    assume s: "generate_batch_summary round_mean results = Inr s"
    show av: "avg_confidence s =
          Rounded (one_decimal (round_half_even (10 * nearest_double (mean_confidence results))))"
      using summary_fields(8) [OF s] ne by (simp add: average_of_def rm)
    {
      assume "\<not> halfway (mean_confidence results)"
      then show "avg_confidence s =
             Rounded (one_decimal (round_half_even (10 * mean_confidence results)))"
        unfolding av using R(2) by simp
    }
    {
      assume "halfway (mean_confidence results)"
      then show "avg_confidence s = Rounded (one_decimal \<lfloor>10 * mean_confidence results\<rfloor>) \<or>
           avg_confidence s = Rounded (one_decimal (\<lfloor>10 * mean_confidence results\<rfloor> + 1))"
        unfolding av using R(3) by auto
    }
  qed
qed

theorem avg_confidence_of_ints_witness:
  "list_all whole_percent three_confidences \<and> three_confidences \<noteq> [] \<and>
   length three_confidences \<le> 2 ^ 40 \<and>
   int_round_mean (map confidence_of three_confidences) =
     round_mean_of_ints (map int_confidence three_confidences) \<and>
   list_all readable three_confidences \<and>
   list_all hashable (coin_mentions three_confidences) \<and>
   mean_confidence three_confidences = 155 / 3 \<and>
   \<not> halfway (mean_confidence three_confidences) \<and>
   (\<exists>s. generate_batch_summary int_round_mean three_confidences = Inr s \<and>
      avg_confidence s = Rounded (one_decimal 517)) \<and>
   list_all whole_percent one_in_four \<and> one_in_four \<noteq> [] \<and>
   length one_in_four \<le> 2 ^ 40 \<and>
   int_round_mean (map confidence_of one_in_four) =
     round_mean_of_ints (map int_confidence one_in_four) \<and>
   list_all readable one_in_four \<and>
   list_all hashable (coin_mentions one_in_four) \<and>
   mean_confidence one_in_four = 1 / 4 \<and>
   halfway (mean_confidence one_in_four) \<and>
   (\<exists>s. generate_batch_summary int_round_mean one_in_four = Inr s \<and>
      avg_confidence s = Rounded (one_decimal 2) \<and>
      one_decimal 2 = 3602879701896397 / 18014398509481984)"
proof -
  have a: "list_all whole_percent three_confidences" "three_confidences \<noteq> []"
    "length three_confidences \<le> 2 ^ 40"
    "int_round_mean (map confidence_of three_confidences) =
       round_mean_of_ints (map int_confidence three_confidences)"
    "list_all readable three_confidences"
    "list_all hashable (coin_mentions three_confidences)"
    by (simp_all add: three_confidences_def whole_percent_def confidence_of_def dict_get_def
        int_round_mean_def int_confidence_def readable_def coin_mentions_def coins_of_def)
  have am: "mean_confidence three_confidences = 155 / 3"
    by (simp add: three_confidences_def mean_confidence_def confidence_of_def dict_get_def)
  have ah: "\<not> halfway (mean_confidence three_confidences)"
    unfolding am by code_simp
  have ar: "round_half_even (10 * mean_confidence three_confidences) = 517"
    unfolding am by code_simp
  have b: "list_all whole_percent one_in_four" "one_in_four \<noteq> []"
    "length one_in_four \<le> 2 ^ 40"
    "int_round_mean (map confidence_of one_in_four) =
       round_mean_of_ints (map int_confidence one_in_four)"
    "list_all readable one_in_four"
    "list_all hashable (coin_mentions one_in_four)"
    by (simp_all add: one_in_four_def whole_percent_def confidence_of_def dict_get_def
        int_round_mean_def int_confidence_def readable_def coin_mentions_def coins_of_def)
  have bm: "mean_confidence one_in_four = 1 / 4"
    by (simp add: one_in_four_def mean_confidence_def confidence_of_def dict_get_def)
  have bh: "halfway (mean_confidence one_in_four)"
    unfolding bm by code_simp
  have bf: "\<lfloor>10 * mean_confidence one_in_four\<rfloor> = 2"
    unfolding bm by code_simp
  note A = avg_confidence_of_ints [of three_confidences int_round_mean]
  note B = avg_confidence_of_ints [of one_in_four int_round_mean]
  from A a obtain s where s: "generate_batch_summary int_round_mean three_confidences = Inr s"
    by blast
  with A a ah have "avg_confidence s = Rounded (one_decimal 517)" unfolding ar [symmetric] by blast
  with s have 1: "\<exists>s. generate_batch_summary int_round_mean three_confidences = Inr s \<and>
      avg_confidence s = Rounded (one_decimal 517)" by blast
  from B b obtain t where t: "generate_batch_summary int_round_mean one_in_four = Inr t"
    by blast
  with B b bh have "avg_confidence t = Rounded (one_decimal \<lfloor>10 * mean_confidence one_in_four\<rfloor>) \<or>
      avg_confidence t = Rounded (one_decimal (\<lfloor>10 * mean_confidence one_in_four\<rfloor> + 1))" by blast
  then have either: "avg_confidence t = Rounded (one_decimal 2) \<or> avg_confidence t = Rounded (one_decimal 3)"
    unfolding bf by simp
  have even: "round_half_even (10 * nearest_double (mean_confidence one_in_four)) = 2"
    unfolding bm by code_simp
  from B b t have "avg_confidence t =
      Rounded (one_decimal (round_half_even (10 * nearest_double (mean_confidence one_in_four))))"
    by blast
  then have "avg_confidence t = Rounded (one_decimal 2)" unfolding even .
  moreover have "one_decimal 2 = 3602879701896397 / 18014398509481984" by code_simp
  ultimately have 2: "\<exists>s. generate_batch_summary int_round_mean one_in_four = Inr s \<and>
      avg_confidence s = Rounded (one_decimal 2) \<and>
      one_decimal 2 = 3602879701896397 / 18014398509481984"
    using t either by blast
  show ?thesis using a am ah 1 b bm bh 2 by blast
qed

text \<open>
  A mean of 0.35: the double nearest to 7/20 lies below it, so that the average is the
  float 0.3, while the mean rounded to one decimal place is 0.4.
\<close>

theorem avg_confidence_counterexample:
  "generate_batch_summary int_round_mean one_in_twenty =
     Inr \<lparr>positive_count = 0, negative_count = 0, neutral_count = 20,
          high_confidence_count = 0, low_confidence_count = 20, error_count = 0,
          avg_confidence = Rounded (5404319552844595 / 18014398509481984),
          top_affected_coins = []\<rparr> \<and>
   mean_confidence one_in_twenty = 7 / 20 \<and>
   round_half_even (10 * (7 / 20)) = 4 \<and>
   one_decimal 4 = 3602879701896397 / 9007199254740992 \<and>
   one_decimal 3 = 5404319552844595 / 18014398509481984"
  by code_simp

section \<open>Missing and unknown fields\<close>

text \<open>
  C10, as amended. The summary treats a result exactly as the same result with its
  defaults written in: impact Neutral unless it is Positive or Negative, confidence 0
  when missing, no coins when \<^verbatim>\<open>affected_coins\<close> is missing. It is returned for every
  sequence of results in which each confidence that is present is a number and each
  \<^verbatim>\<open>affected_coins\<close> that is present is an iterable of hashable values, provided the
  float arithmetic of the mean raises nothing. Whenever it is returned, the results whose
  impact is missing or any other value are the ones counted as Neutral, a result without
  confidence is counted low-confidence, the coins ranked are those of the results that
  have any, and the average is the rounded mean of the confidences of all results in
  input order, a missing one entering as 0. A result with neither confidence nor
  \<^verbatim>\<open>affected_coins\<close> passes the loop body without an error. A result whose confidence
  is present and not a number, or whose \<^verbatim>\<open>affected_coins\<close> is present and not
  iterable, makes the summary raise \<^verbatim>\<open>TypeError\<close>.
\<close>

theorem missing_fields_take_defaults:
  "generate_batch_summary round_mean (map with_defaults results) =
     generate_batch_summary round_mean results \<and>
   (summarisable round_mean results \<longrightarrow>
     (\<exists>s. generate_batch_summary round_mean results = Inr s)) \<and>
   (\<forall>s. generate_batch_summary round_mean results = Inr s \<longrightarrow>
      neutral_count s = length (filter impact_other results) \<and>
      low_confidence_count s = length (filter (\<lambda>r. \<not> is_high r) results) \<and>
      top_affected_coins s = top_mentioned 5 (coin_mentions results) \<and>
      (results \<noteq> [] \<longrightarrow>
         (\<exists>x. round_mean (map confidence_of results) = Inr x \<and>
              avg_confidence s = Rounded x))) \<and>
   (result ''confidence'' = None \<longrightarrow> confidence_of result = PNum 0 \<and> \<not> is_high result) \<and>
   (result ''affected_coins'' = None \<longrightarrow> coins_of result = []) \<and>
   (result ''confidence'' = None \<and> result ''affected_coins'' = None \<longrightarrow>
     (\<exists>a'. summary_step a result = Inr a' \<and> n_low a' = n_low a + 1 \<and>
        confidences a' = confidences a @ [PNum 0] \<and> all_coins a' = all_coins a)) \<and>
   (\<not> list_all readable results \<longrightarrow>
      generate_batch_summary round_mean results = Inl TypeError)"
proof (intro conjI allI impI)
  show "generate_batch_summary round_mean (map with_defaults results) =
     generate_batch_summary round_mean results"
    by (simp add: generate_batch_summary_def loop_with_defaults)
next
  assume "summarisable round_mean results"
  then show "\<exists>s. generate_batch_summary round_mean results = Inr s"
    by (rule summary_returns)
next
  fix s
  assume s: "generate_batch_summary round_mean results = Inr s"
  show "neutral_count s = length (filter impact_other results)"
    using summary_fields(3) [OF s] by (simp add: impact_other_iff)
  show "low_confidence_count s = length (filter (\<lambda>r. \<not> is_high r) results)"
    by (rule summary_fields(5) [OF s])
  show "top_affected_coins s = top_mentioned 5 (coin_mentions results)"
    unfolding coin_mentions_def by (rule top_coins_of_returned [OF summary_fields(7) [OF s]])
  assume ne: "results \<noteq> []"
  show "\<exists>x. round_mean (map confidence_of results) = Inr x \<and> avg_confidence s = Rounded x"
    using summary_fields(8) [OF s] ne
    by (auto simp: average_of_def split: sum.splits)
next
  assume "result ''confidence'' = None"
  then show "confidence_of result = PNum 0" "\<not> is_high result"
    by (simp_all add: is_high_def confidence_of_def dict_get_def)
next
  assume "result ''affected_coins'' = None"
  then show "coins_of result = []" by (simp add: coins_of_def dict_get_def)
next
  assume m: "result ''confidence'' = None \<and> result ''affected_coins'' = None"
  then have r: "readable result" by (simp add: readable_def)
  obtain a' where a': "summary_step a result = Inr a'"
    using r step_error [of a result] by (cases "summary_step a result") auto
  have "\<not> is_high result" "confidence_of result = PNum 0" "coins_of result = []"
    using m by (simp_all add: is_high_def confidence_of_def coins_of_def dict_get_def)
  then show "\<exists>a'. summary_step a result = Inr a' \<and> n_low a' = n_low a + 1 \<and>
        confidences a' = confidences a @ [PNum 0] \<and> all_coins a' = all_coins a"
    using a' step_fields(5,7,8) [OF a'] by simp
next
  assume "\<not> list_all readable results"
  then have "summary_loop acc0 results = Inl TypeError" by (simp add: loop_error)
  then show "generate_batch_summary round_mean results = Inl TypeError"
    by (simp add: generate_batch_summary_def)
qed

theorem missing_fields_take_defaults_witness:
  "generate_batch_summary some_float
      (map with_defaults [Map.empty, [''impact'' \<mapsto> PStr ''Bullish'', ''confidence'' \<mapsto> PNum 90],
         [''impact'' \<mapsto> PStr ''Negative'']]) =
     generate_batch_summary some_float
       [Map.empty, [''impact'' \<mapsto> PStr ''Bullish'', ''confidence'' \<mapsto> PNum 90],
        [''impact'' \<mapsto> PStr ''Negative'']] \<and>
   summarisable some_float
       [Map.empty, [''impact'' \<mapsto> PStr ''Bullish'', ''confidence'' \<mapsto> PNum 90],
        [''impact'' \<mapsto> PStr ''Negative'']] \<and>
   (\<exists>s. generate_batch_summary some_float
       [Map.empty, [''impact'' \<mapsto> PStr ''Bullish'', ''confidence'' \<mapsto> PNum 90],
        [''impact'' \<mapsto> PStr ''Negative'']] = Inr s \<and>
      neutral_count s = 2 \<and> low_confidence_count s = 2 \<and> top_affected_coins s = [] \<and>
      (\<exists>x. some_float [PNum 0, PNum 90, PNum 0] = Inr x \<and> avg_confidence s = Rounded x)) \<and>
   confidence_of Map.empty = PNum 0 \<and> \<not> is_high Map.empty \<and> coins_of Map.empty = [] \<and>
   (\<exists>a'. summary_step acc0 Map.empty = Inr a' \<and> n_low a' = 1 \<and>
      confidences a' = [PNum 0] \<and> all_coins a' = []) \<and>
   \<not> list_all readable [[''affected_coins'' \<mapsto> PNone]] \<and>
   generate_batch_summary some_float [[''affected_coins'' \<mapsto> PNone]] = Inl TypeError"
proof -
  let ?rs = "[Map.empty, [''impact'' \<mapsto> PStr ''Bullish'', ''confidence'' \<mapsto> PNum 90],
        [''impact'' \<mapsto> PStr ''Negative'']]"
  have h: "summarisable some_float ?rs"
    by (simp add: summarisable_def readable_def coins_of_def dict_get_def mean_defined_def
        some_float_def)
  have n: "\<not> list_all readable [[''affected_coins'' \<mapsto> PNone]]"
    by (simp add: readable_def)
  have c: "length (filter impact_other ?rs) = 2" "length (filter (\<lambda>r. \<not> is_high r) ?rs) = 2"
    "map confidence_of ?rs = [PNum 0, PNum 90, PNum 0]" "?rs \<noteq> []"
    "top_mentioned 5 (coin_mentions ?rs) = []"
    by (simp_all add: impact_other_def is_high_def confidence_of_def dict_get_def
        top_mentioned_def coin_mentions_def coins_of_def)
  note T = missing_fields_take_defaults [of some_float ?rs Map.empty acc0]
  from T h obtain s where s: "generate_batch_summary some_float ?rs = Inr s" by blast
  with T have "neutral_count s = 2 \<and> low_confidence_count s = 2 \<and> top_affected_coins s = [] \<and>
      (\<exists>x. some_float [PNum 0, PNum 90, PNum 0] = Inr x \<and> avg_confidence s = Rounded x)"
    unfolding c using c(4) by blast
  moreover have "generate_batch_summary some_float (map with_defaults ?rs) =
      generate_batch_summary some_float ?rs" using T by blast
  moreover have "confidence_of Map.empty = PNum 0 \<and> \<not> is_high Map.empty \<and> coins_of Map.empty = [] \<and>
   (\<exists>a'. summary_step acc0 Map.empty = Inr a' \<and> n_low a' = 1 \<and>
      confidences a' = [PNum 0] \<and> all_coins a' = [])"
    using T by (simp add: acc0_def)
  moreover have "generate_batch_summary some_float [[''affected_coins'' \<mapsto> PNone]] = Inl TypeError"
    using n missing_fields_take_defaults [of some_float "[[''affected_coins'' \<mapsto> PNone]]"]
    by blast
  ultimately show ?thesis using s h n by blast
qed

text \<open>
  Two malformed records that cause an error: a confidence that is a string (line 521)
  and an \<^verbatim>\<open>affected_coins\<close> that is null (line 531).
\<close>

theorem malformed_records_counterexample:
  "generate_batch_summary some_float
     [[''impact'' \<mapsto> PStr ''Bullish'', ''confidence'' \<mapsto> PStr ''high'']] = Inl TypeError \<and>
   generate_batch_summary some_float [[''affected_coins'' \<mapsto> PNone]] = Inl TypeError"
  by (simp add: generate_batch_summary_def summary_step_def dict_get_def Let_def
      count_impact_def count_confidence_def count_error_def acc0_def)


section \<open>The most mentioned coins\<close>

text \<open>
  C2. Whenever the summary is returned, its \<^verbatim>\<open>top_affected_coins\<close> is the ranking of
  the coin mentions of all results, flattened in input order: the five most mentioned
  coins, each with its number of mentions, a tie in mentions broken in favour of the coin
  mentioned first. It is returned for every sequence of results it can read.
\<close>

theorem top_coins_ranked:
  "(summarisable round_mean results \<longrightarrow>
      (\<exists>s. generate_batch_summary round_mean results = Inr s)) \<and>
   (\<forall>s. generate_batch_summary round_mean results = Inr s \<longrightarrow>
      top_affected_coins s = top_mentioned 5 (coin_mentions results))"
proof (intro conjI allI impI)
  assume "summarisable round_mean results"
  then show "\<exists>s. generate_batch_summary round_mean results = Inr s"
    by (rule summary_returns)
next
  fix s
  assume s: "generate_batch_summary round_mean results = Inr s"
  show "top_affected_coins s = top_mentioned 5 (coin_mentions results)"
    unfolding coin_mentions_def by (rule top_coins_of_returned [OF summary_fields(7) [OF s]])
qed

theorem top_coins_ranked_witness:
  "summarisable some_float three_results \<and>
   (\<exists>s. generate_batch_summary some_float three_results = Inr s \<and>
      top_affected_coins s =
        [(PStr ''ETH'', 2), (PStr ''BTC'', 2), (PStr ''DOT'', 2), (PStr ''SOL'', 1),
         (PStr ''ADA'', 1)])"
proof -
  have h: "summarisable some_float three_results"
    by (simp add: three_results_def summarisable_def readable_def coins_of_def dict_get_def
        mean_defined_def some_float_def)
  have m: "coin_mentions three_results =
      [PStr ''ETH'', PStr ''BTC'', PStr ''BTC'', PStr ''SOL'', PStr ''ETH'', PStr ''ADA'',
       PStr ''XRP'', PStr ''DOT'', PStr ''DOT'']"
    by (simp add: three_results_def coin_mentions_def coins_of_def dict_get_def)
  have t: "top_mentioned 5 (coin_mentions three_results) =
        [(PStr ''ETH'', 2), (PStr ''BTC'', 2), (PStr ''DOT'', 2), (PStr ''SOL'', 1),
         (PStr ''ADA'', 1)]"
    unfolding m by (simp add: top_mentioned_def rank_key_def first_index_def)
  note T = top_coins_ranked [of some_float three_results]
  from T h obtain s where s: "generate_batch_summary some_float three_results = Inr s" by blast
  with T have "top_affected_coins s = top_mentioned 5 (coin_mentions three_results)" by blast
  with s h show ?thesis unfolding t by blast
qed

section \<open>Validation before analysis\<close>

text \<open>
  When the arguments that are present are strings, a title or a summary that is missing
  or empty after trimming is answered with the invalid-params error, with no call to the
  analyzer; and whatever the arguments are, the analyzer is called only when both are
  non-empty strings, and then once, with the trimmed texts.
\<close>

lemma validation_of_strings:
  "(arg_text a ''title'' = Some t \<and> arg_text a ''summary'' = Some s \<and>
      arg_text a ''source'' = Some src \<and> (t = [] \<or> s = []) \<longrightarrow>
      handle_single_analysis an rq ts rid a = (Inr (invalid_single rid), [])) \<and>
   (snd (handle_single_analysis an rq ts rid a) \<noteq> [] \<longrightarrow>
      (\<exists>t s. arg_text a ''title'' = Some t \<and> arg_text a ''summary'' = Some s \<and>
         t \<noteq> [] \<and> s \<noteq> [] \<and>
         snd (handle_single_analysis an rq ts rid a) = [(t, s, rq)]))"
  unfolding handle_single_analysis_def str_strip_arg
  by (auto simp: invalid_single_def create_mcp_response_def create_mcp_error_def Let_def
      split: option.splits sum.splits)

text \<open>
  C5. The handler strips its three arguments (lines 252 to 254) before it validates
  (line 256). A request with a summary, no title and a \<^verbatim>\<open>source\<close> that is null
  therefore raises \<^verbatim>\<open>AttributeError\<close> at line 254, which \<^verbatim>\<open>handle_tool_call\<close>
  answers with the internal error -32603: the caller gets no validation error, although
  the title is missing. The same request without the null source is answered with the
  invalid-params error -32602. With a title, a summary and a null source the handler
  raises as well, so that a request with both texts is never analysed. In none of these
  runs is the analyzer called.
\<close>

theorem null_source_is_internal_error:
  "handle_single_analysis neutral_analyzer ''r1'' ''now'' (PNum 1)
     [''summary'' \<mapsto> PStr ''Bitcoin rallies'', ''source'' \<mapsto> PNone] = (Inl AttributeError, []) \<and>
   tool_call_result (PNum 1)
     (fst (handle_single_analysis neutral_analyzer ''r1'' ''now'' (PNum 1)
        [''summary'' \<mapsto> PStr ''Bitcoin rallies'', ''source'' \<mapsto> PNone])) =
     Response_Error (PNum 1) \<lparr>err_code = - 32603, err_message = ''Internal server error'',
       err_data = Some AttributeError\<rparr> \<and>
   handle_single_analysis neutral_analyzer ''r1'' ''now'' (PNum 1)
     [''summary'' \<mapsto> PStr ''Bitcoin rallies''] = (Inr (invalid_single (PNum 1)), []) \<and>
   handle_single_analysis neutral_analyzer ''r1'' ''now'' (PNum 1)
     [''title'' \<mapsto> PStr ''ETF approved'', ''summary'' \<mapsto> PStr ''Bitcoin rallies'',
      ''source'' \<mapsto> PNone] = (Inl AttributeError, [])"
  by (simp add: handle_single_analysis_def dict_get_def strip_def is_space_def
      tool_call_result_def create_mcp_response_def create_mcp_error_def invalid_single_def)


section \<open>The batch size limit\<close>

text \<open>
  C6, as amended. A batch-analysis request whose \<^verbatim>\<open>news_items\<close> list has more than 50
  items is rejected with the invalid-params error before any call to the analyzer. A list
  of 1 to 50 items is accepted: the analyzer is called once with exactly these items and
  the answer is not an invalid-params error. The empty list is rejected as well.
\<close>

theorem batch_size_limit:
  "(arguments ''news_items'' = Some (PList items) \<and> length items > 50 \<longrightarrow>
      handle_batch_analysis ab wh rm rq ts rid arguments = (batch_too_large rid, [])) \<and>
   (arguments ''news_items'' = Some (PList items) \<and> 1 \<le> length items \<and> length items \<le> 50 \<longrightarrow>
      snd (handle_batch_analysis ab wh rm rq ts rid arguments) = [(items, rq)] \<and>
      \<not> is_invalid_params (fst (handle_batch_analysis ab wh rm rq ts rid arguments)))"
proof (intro conjI impI)
  assume a: "arguments ''news_items'' = Some (PList items) \<and> length items > 50"
  then have "items \<noteq> []" by auto
  with a show "handle_batch_analysis ab wh rm rq ts rid arguments = (batch_too_large rid, [])"
    by (simp add: handle_batch_analysis_def dict_get_def batch_too_large_def Let_def
        create_mcp_response_def create_mcp_error_def)
next
  assume a: "arguments ''news_items'' = Some (PList items) \<and> 1 \<le> length items \<and> length items \<le> 50"
  then have ne: "items \<noteq> []" by auto
  show "snd (handle_batch_analysis ab wh rm rq ts rid arguments) = [(items, rq)]"
    using a ne by (simp add: handle_batch_analysis_def dict_get_def Let_def)
  show "\<not> is_invalid_params (fst (handle_batch_analysis ab wh rm rq ts rid arguments))"
    using a ne
    by (simp add: handle_batch_analysis_def dict_get_def is_invalid_params_def Let_def
        create_mcp_response_def create_mcp_error_def split: sum.splits)
qed


theorem batch_size_limit_witness:
  "handle_batch_analysis (analyze_batch title_scorer) None some_float ''r1'' ''now'' (PNum 1)
     [''news_items'' \<mapsto> PList (replicate 51 (PDict []))] = (batch_too_large (PNum 1), []) \<and>
   snd (handle_batch_analysis (analyze_batch title_scorer) None some_float ''r1'' ''now'' (PNum 1)
     [''news_items'' \<mapsto> PList three_items]) = [(three_items, ''r1'')] \<and>
   \<not> is_invalid_params
     (fst (handle_batch_analysis (analyze_batch title_scorer) None some_float ''r1'' ''now''
        (PNum 1) [''news_items'' \<mapsto> PList three_items]))"
  using
    batch_size_limit [of "[''news_items'' \<mapsto> PList (replicate 51 (PDict []))]"
      "replicate 51 (PDict [])" "analyze_batch title_scorer" None some_float "''r1''" "''now''"
      "PNum 1"]
    batch_size_limit [of "[''news_items'' \<mapsto> PList three_items]" three_items
      "analyze_batch title_scorer" None some_float "''r1''" "''now''" "PNum 1"]
  by (simp add: three_items_def)

theorem batch_size_limit_counterexample:
  "handle_batch_analysis (analyze_batch title_scorer) None some_float ''r1'' ''now'' (PNum 1)
     [''news_items'' \<mapsto> PList []] =
     (Response_Error (PNum 1) \<lparr>err_code = - 32602,
        err_message = ''Invalid params: news_items array required'', err_data = None\<rparr>, [])"
  by (simp add: handle_batch_analysis_def dict_get_def create_mcp_response_def
      create_mcp_error_def)

section \<open>One result per item, in order\<close>

text \<open>
  C1. \<^verbatim>\<open>analyze_batch\<close> on N items returns N results, the i-th being the result of the
  i-th item; an item whose scoring fails gets a result with \<^verbatim>\<open>error\<close> set, impact
  Neutral and confidence 0, and every other item is still scored. When the handler
  answers with results, they are N, in the same order, the i-th carrying index i and
  agreeing with the analyzer's i-th result on every key but the metadata the handler
  writes.
\<close>

theorem batch_results_in_order:
  "(\<exists>rs. analyze_batch sc items rq = Inr rs \<and> length rs = length items \<and>
      (\<forall>i<length items. rs ! i = item_result sc rq (items ! i))) \<and>
   (sc item rq = Inl msg \<longrightarrow>
      item_result sc rq item ''error'' = Some (PStr msg) \<and>
      item_result sc rq item ''impact'' = Some (PStr ''Neutral'') \<and>
      item_result sc rq item ''confidence'' = Some (PNum 0)) \<and>
   (arguments ''news_items'' = Some (PList items) \<and>
    fst (handle_batch_analysis (analyze_batch sc) wh rm rq ts rid arguments) =
      Response_Result rid' (Some response_data) \<longrightarrow>
      length (br_results response_data) = length items \<and>
      br_total_items response_data = length items \<and>
      (\<forall>i<length items.
         (br_results response_data ! i) ''item_index'' = Some (PNum (of_nat i)) \<and>
         (\<forall>k. k \<notin> metadata_keys \<longrightarrow>
            (br_results response_data ! i) k = item_result sc rq (items ! i) k)))"
proof (intro conjI impI)
  show "\<exists>rs. analyze_batch sc items rq = Inr rs \<and> length rs = length items \<and>
      (\<forall>i<length items. rs ! i = item_result sc rq (items ! i))"
    by (simp add: analyze_batch_def)
next
  assume f: "sc item rq = Inl msg"
  show "item_result sc rq item ''error'' = Some (PStr msg)"
    "item_result sc rq item ''impact'' = Some (PStr ''Neutral'')"
    "item_result sc rq item ''confidence'' = Some (PNum 0)"
    by (simp_all add: item_result_def f failed_result_def)
next
  assume a: "arguments ''news_items'' = Some (PList items) \<and>
    fst (handle_batch_analysis (analyze_batch sc) wh rm rq ts rid arguments) =
      Response_Result rid' (Some response_data)"
  then have body: "batch_body (analyze_batch sc) wh rm rq ts items = Inr response_data"
    by (auto simp: handle_batch_analysis_def dict_get_def Let_def create_mcp_response_def
        split: if_splits sum.splits)
  then obtain rs' where rs': "add_metadata_loop rq items 0 (map (item_result sc rq) items) = Inr rs'"
    and res: "br_results response_data = rs'" "br_total_items response_data = length rs'"
    by (auto simp: batch_body_def analyze_batch_def split: sum.splits)
  note F = add_metadata_loop_fields [OF rs']
  show "length (br_results response_data) = length items" using F res by simp
  show "br_total_items response_data = length items" using F res by simp
  show "\<forall>i<length items.
         (br_results response_data ! i) ''item_index'' = Some (PNum (of_nat i)) \<and>
         (\<forall>k. k \<notin> metadata_keys \<longrightarrow>
            (br_results response_data ! i) k = item_result sc rq (items ! i) k)"
    using F res by simp
qed


theorem batch_results_in_order_witness:
  "\<exists>d. fst (handle_batch_analysis (analyze_batch title_scorer) None some_float ''r1'' ''now''
           (PNum 1) [''news_items'' \<mapsto> PList three_items]) = Response_Result (PNum 1) (Some d) \<and>
        length (br_results d) = 3 \<and> br_total_items d = 3 \<and>
        (br_results d ! 1) ''error'' = Some (PStr ''empty title'') \<and>
        (br_results d ! 1) ''impact'' = Some (PStr ''Neutral'') \<and>
        (br_results d ! 1) ''confidence'' = Some (PNum 0) \<and>
        (br_results d ! 0) ''confidence'' = Some (PNum 50) \<and>
        (br_results d ! 2) ''confidence'' = Some (PNum 50) \<and>
        (br_results d ! 2) ''item_index'' = Some (PNum 2)"
proof -
  obtain d where d: "fst (handle_batch_analysis (analyze_batch title_scorer) None some_float
      ''r1'' ''now'' (PNum 1) [''news_items'' \<mapsto> PList three_items]) =
      Response_Result (PNum 1) (Some d)"
    using three_items_run by blast
  have len: "length three_items = 3" by (simp add: three_items_def)
  have keys: "''error'' \<notin> metadata_keys" "''impact'' \<notin> metadata_keys"
    "''confidence'' \<notin> metadata_keys"
    by (simp_all add: metadata_keys_def)
  note T = batch_results_in_order [where sc = title_scorer and items = three_items
      and rq = "''r1''" and item = "three_items ! 1" and msg = "''empty title''"
      and arguments = "[''news_items'' \<mapsto> PList three_items]" and wh = None
      and rm = some_float and ts = "''now''" and rid = "PNum 1" and rid' = "PNum 1"
      and response_data = d]
  have failed: "item_result title_scorer ''r1'' (three_items ! 1) ''error'' = Some (PStr ''empty title'')"
    "item_result title_scorer ''r1'' (three_items ! 1) ''impact'' = Some (PStr ''Neutral'')"
    "item_result title_scorer ''r1'' (three_items ! 1) ''confidence'' = Some (PNum 0)"
    using T three_items_scored(2) by simp_all
  have scored: "item_result title_scorer ''r1'' (three_items ! 0) ''confidence'' = Some (PNum 50)"
    "item_result title_scorer ''r1'' (three_items ! 2) ''confidence'' = Some (PNum 50)"
    using three_items_scored by (simp_all add: item_result_def)
  have R: "length (br_results d) = 3" "br_total_items d = 3"
    "\<And>i k. i < 3 \<Longrightarrow> k \<notin> metadata_keys \<Longrightarrow>
       (br_results d ! i) k = item_result title_scorer ''r1'' (three_items ! i) k"
    "\<And>i. i < 3 \<Longrightarrow> (br_results d ! i) ''item_index'' = Some (PNum (of_nat i))"
    using T d len by simp_all
  have "(br_results d ! 2) ''item_index'' = Some (PNum 2)"
    using R(4) [of 2] by simp
  then show ?thesis
    using d R(1,2) R(3) [of 1, OF _ keys(1)] R(3) [of 1, OF _ keys(2)] R(3) [of 1, OF _ keys(3)]
      R(3) [of 0, OF _ keys(3)] R(3) [of 2, OF _ keys(3)] failed scored
    by simp
qed


section \<open>The keywords reported\<close>

text \<open>
  C7. For a text that is not empty after trimming (and a scorer and a coin detector that
  return), the keyword handler reports, in lexicon order, exactly the phrases of the
  positive and of the negative lexicon that are present in the trimmed text as
  case-insensitive matches with a word boundary on both sides, each paired with its
  lexicon weight when weights are requested. A phrase that begins and ends with a word
  character and occurs only inside longer words is not reported.
\<close>

theorem keywords_reported:
  assumes "arguments ''text'' = Some (PStr t)" and "strip t \<noteq> []"
    and "keyword_analysis (py_lower (strip t)) = Inr (impact, confidence)"
    and "detect_coins (strip t) = Inr coins"
  shows "(\<exists>r. handle_keyword_analysis pos neg keyword_analysis detect_coins ts rid arguments =
             Inr (Response_Result rid (Some r)) \<and>
           kr_positive_keywords r =
             report (truthy (dict_get arguments ''include_weights'' (PNum 0)))
               (present_in (strip t) pos) \<and>
           kr_negative_keywords r =
             report (truthy (dict_get arguments ''include_weights'' (PNum 0)))
               (present_in (strip t) neg)) \<and>
         (\<forall>k wt. k \<noteq> [] \<and> is_word_char (hd k) \<and> is_word_char (last k) \<and>
            embedded_only k (strip t) \<longrightarrow>
            (k, wt) \<notin> set (present_in (strip t) pos) \<and>
            (k, wt) \<notin> set (present_in (strip t) neg))"
proof (intro conjI allI impI)
  show "\<exists>r. handle_keyword_analysis pos neg keyword_analysis detect_coins ts rid arguments =
             Inr (Response_Result rid (Some r)) \<and>
           kr_positive_keywords r =
             report (truthy (dict_get arguments ''include_weights'' (PNum 0)))
               (present_in (strip t) pos) \<and>
           kr_negative_keywords r =
             report (truthy (dict_get arguments ''include_weights'' (PNum 0)))
               (present_in (strip t) neg)"
    using assms
    by (simp add: handle_keyword_analysis_def dict_get_def [of arguments "''text''"] Let_def
        create_mcp_response_def detected_keywords_eq)
next
  fix k wt
  assume "k \<noteq> [] \<and> is_word_char (hd k) \<and> is_word_char (last k) \<and> embedded_only k (strip t)"
  then have "\<not> word_bounded_match k (strip t)" by (simp add: embedded_not_matched)
  then show "(k, wt) \<notin> set (present_in (strip t) pos)" "(k, wt) \<notin> set (present_in (strip t) neg)"
    by (simp_all add: present_in_def)
qed

theorem keywords_reported_witness:
  "(\<exists>r. handle_keyword_analysis demo_positive demo_negative demo_scorer demo_detector ''now''
          (PNum 1) demo_arguments = Inr (Response_Result (PNum 1) (Some r)) \<and>
        kr_positive_keywords r = [Weighted ''surge'' 8] \<and> kr_negative_keywords r = []) \<and>
   embedded_only ''ban'' ''Urban prices Surge'' \<and>
   (''ban'', 9) \<notin> set (present_in ''Urban prices Surge'' demo_negative)"
proof -
  have st: "strip '' Urban prices Surge '' = ''Urban prices Surge''"
    by (simp add: strip_def is_space_def)
  have w: "is_word_char CHR ''b''" "is_word_char CHR ''n''"
    by (simp_all add: is_word_char_def)
  have e: "embedded_only ''ban'' ''Urban prices Surge''"
    using demo_search(3) w by (intro not_matched_embedded) (simp_all add: re_search_word_iff)
  have p: "present_in ''Urban prices Surge'' demo_positive = [(''surge'', 8)]"
    "present_in ''Urban prices Surge'' demo_negative = []"
    using demo_search by (simp_all add: present_in_search demo_positive_def demo_negative_def)
  have a: "demo_arguments ''text'' = Some (PStr '' Urban prices Surge '')"
    "truthy (dict_get demo_arguments ''include_weights'' (PNum 0))"
    by (simp_all add: demo_arguments_def dict_get_def)
  note T = keywords_reported [where arguments = demo_arguments and t = "'' Urban prices Surge ''"
      and keyword_analysis = demo_scorer and impact = "''Neutral''" and confidence = 50
      and detect_coins = demo_detector and coins = "[]" and pos = demo_positive
      and neg = demo_negative and ts = "''now''" and rid = "PNum 1"]
  have "strip '' Urban prices Surge '' \<noteq> []" by (simp add: st)
  from T [OF a(1) this] e show ?thesis
    unfolding st p by (simp add: demo_scorer_def demo_detector_def a(2) report_def w)
qed


end
